(* ===== verification/Prelude.thy ===== *)
theory Prelude
  imports Main "HOL-Library.Word" "HOL-Library.Char_ord" "HOL-Library.List_Lexorder"
begin

text \<open>
  Shared vocabulary of the development: the machine types of the C++ sources, the parts of the C
  and C++ standard libraries the server calls on strings (\<open><cctype>\<close> in the ``C'' locale,
  \<open>std::to_string\<close>, \<open>std::string::find\<close>), and the generic lemmas on lists and options that the
  component theories use.  The theory has no program logic of its own.
\<close>

section \<open>Named collections\<close>

named_theorems frame_simps \<open>fields of the state that an operation leaves alone\<close>
named_theorems wf_intros \<open>operations keep the well-formedness invariant\<close>

section \<open>Machine types\<close>

text \<open>
  \<open>std::size_t\<close> and \<open>std::uint64_t\<close> are 64 bits wide on the platforms the server is built for.
  File descriptors and other plain \<open>int\<close> values are never computed with beyond comparison, so
  they are HOL integers.  The length of an existing \<open>std::string\<close> is a \<open>nat\<close>; it becomes a
  \<open>size_t\<close> word where the source does limit arithmetic with it.
\<close>

type_synonym size_t = "64 word"
type_synonym uint64 = "64 word"
type_synonym fd = int

abbreviation to_size :: "nat \<Rightarrow> size_t" where
  "to_size n \<equiv> word_of_nat n"

lemma unat_to_size [simp]: "n < 2 ^ 64 \<Longrightarrow> unat (to_size n) = n"
  by (simp add: unat_of_nat take_bit_nat_eq_self)

section \<open>Characters: the ``C'' locale of \<open><cctype>\<close>\<close>

abbreviation char_code :: "char \<Rightarrow> nat" where
  "char_code c \<equiv> of_char c"

definition isspace :: "char \<Rightarrow> bool" where
  "isspace c \<longleftrightarrow> char_code c = 32 \<or> (9 \<le> char_code c \<and> char_code c \<le> 13)"

definition isdigit :: "char \<Rightarrow> bool" where
  "isdigit c \<longleftrightarrow> 48 \<le> char_code c \<and> char_code c \<le> 57"

definition tolower :: "char \<Rightarrow> char" where
  "tolower c = (if 65 \<le> char_code c \<and> char_code c \<le> 90 then char_of (char_code c + 32) else c)"

definition toupper :: "char \<Rightarrow> char" where
  "toupper c = (if 97 \<le> char_code c \<and> char_code c \<le> 122 then char_of (char_code c - 32) else c)"

abbreviation (input) CR :: char where "CR \<equiv> CHR 0x0D"
abbreviation (input) LF :: char where "LF \<equiv> CHR 0x0A"
abbreviation (input) crlf :: string where "crlf \<equiv> [CHR 0x0D, CHR 0x0A]"

abbreviation line_end :: "char \<Rightarrow> bool" where
  "line_end c \<equiv> c = LF \<or> c = CR"

lemma char_code_tolower:
  "char_code (tolower c) = (if 65 \<le> char_code c \<and> char_code c \<le> 90 then char_code c + 32
                            else char_code c)"
  by (auto simp: tolower_def)

lemma char_code_toupper:
  "char_code (toupper c) = (if 97 \<le> char_code c \<and> char_code c \<le> 122 then char_code c - 32
                            else char_code c)"
  by (auto simp: toupper_def)

lemma char_eq_code: "c = d \<longleftrightarrow> char_code c = char_code d"
  by simp

lemma tolower_idem [simp]: "tolower (tolower c) = tolower c"
  by (subst char_eq_code) (auto simp: char_code_tolower)

lemma toupper_idem [simp]: "toupper (toupper c) = toupper c"
  by (subst char_eq_code) (auto simp: char_code_toupper)

lemma toupper_eq_non_letter: "char_code d < 65 \<Longrightarrow> toupper c = d \<longleftrightarrow> c = d"
  unfolding char_eq_code [of _ d] char_code_toupper by auto

lemma tolower_eq_non_letter: "char_code d < 65 \<Longrightarrow> tolower c = d \<longleftrightarrow> c = d"
  unfolding char_eq_code [of _ d] char_code_tolower by auto

lemma isspace_space [simp]: "isspace (CHR '' '')"
  by (simp add: isspace_def)

section \<open>Case folding\<close>

text \<open>
  Both string normalisations of the program (\<open>Channel::canonicalNick\<close> and \<open>IrcMessage::upper\<close>)
  transform a string character by character with an idempotent map.  What their clients rely on
  is the contract of this locale.
\<close>

locale case_fold =
  fixes fold_char :: "char \<Rightarrow> char"
    and fold_string :: "string \<Rightarrow> string"
  assumes fold_string_map: "fold_string s = map fold_char s"
    and fold_char_idem: "fold_char (fold_char c) = fold_char c"
begin

lemma fold_string_idem: "fold_string (fold_string s) = fold_string s"
  by (simp add: fold_string_map fold_char_idem comp_def)

lemma fold_string_length: "length (fold_string s) = length s"
  by (simp add: fold_string_map)

lemma fold_string_empty_iff: "fold_string s = [] \<longleftrightarrow> s = []"
  by (simp add: fold_string_map)

lemma fold_string_append: "fold_string (s @ t) = fold_string s @ fold_string t"
  by (simp add: fold_string_map)

lemma fold_string_fixed: "(\<forall>c \<in> set s. fold_char c = c) \<Longrightarrow> fold_string s = s"
  by (simp add: fold_string_map map_idI)

end

section \<open>Numbers as text: \<open>std::to_string\<close>\<close>

definition digit_char :: "nat \<Rightarrow> char" where
  "digit_char d = char_of (48 + d)"

fun show_nat :: "nat \<Rightarrow> string" where
  "show_nat n = (if n < 10 then [digit_char n]
                 else show_nat (n div 10) @ [digit_char (n mod 10)])"

declare show_nat.simps [simp del]

definition show_int :: "int \<Rightarrow> string" where
  "show_int i = (if i < 0 then CHR ''-'' # show_nat (nat (- i)) else show_nat (nat i))"

definition show_size :: "size_t \<Rightarrow> string" where
  "show_size w = show_nat (unat w)"

text \<open>The value a decimal numeral denotes, the reference for every parser and printer.\<close>

definition digit_val :: "char \<Rightarrow> nat" where
  "digit_val c = char_code c - 48"

fun dec_val :: "nat \<Rightarrow> string \<Rightarrow> nat" where
  "dec_val acc [] = acc"
| "dec_val acc (c # cs) = dec_val (10 * acc + digit_val c) cs"

lemma char_code_digit_char: "d < 10 \<Longrightarrow> char_code (digit_char d) = 48 + d"
  by (simp add: digit_char_def)

lemma isdigit_digit_char [simp]: "d < 10 \<Longrightarrow> isdigit (digit_char d)"
  by (simp add: isdigit_def char_code_digit_char)

lemma digit_val_digit_char [simp]: "d < 10 \<Longrightarrow> digit_val (digit_char d) = d"
  by (simp add: digit_val_def char_code_digit_char)

lemma dec_val_append: "dec_val acc (s @ t) = dec_val (dec_val acc s) t"
  by (induction s arbitrary: acc) auto

lemma show_nat_nonempty [simp]: "show_nat n \<noteq> []"
  by (subst show_nat.simps) simp

lemma show_nat_digits: "\<forall>c \<in> set (show_nat n). isdigit c"
proof (induction n rule: show_nat.induct)
  case (1 n)
  then show ?case by (subst show_nat.simps) auto
qed

lemma dec_val_show_nat: "dec_val 0 (show_nat n) = n"
proof (induction n rule: show_nat.induct)
  case (1 n)
  then show ?case by (subst show_nat.simps) (auto simp: dec_val_append)
qed

lemma show_nat_inj: "show_nat m = show_nat n \<Longrightarrow> m = n"
  by (metis dec_val_show_nat)

lemma isdigit_not_space: "isdigit c \<Longrightarrow> \<not> isspace c"
  by (auto simp: isdigit_def isspace_def)

section \<open>Searching strings\<close>

text \<open>\<open>std::string::find(c)\<close>: the first index of the character, \<open>None\<close> for \<open>npos\<close>.\<close>

fun str_find :: "char \<Rightarrow> string \<Rightarrow> nat option" where
  "str_find c [] = None"
| "str_find c (d # s) = (if d = c then Some 0 else map_option Suc (str_find c s))"

lemma str_find_None_iff: "str_find c s = None \<longleftrightarrow> c \<notin> set s"
  by (induction s) auto

lemma str_find_Some_iff:
  "str_find c s = Some n \<longleftrightarrow> n < length s \<and> s ! n = c \<and> c \<notin> set (take n s)"
proof (induction s arbitrary: n)
  case (Cons d s)
  then show ?case by (cases n) auto
qed simp

lemma str_find_SomeD:
  assumes "str_find c s = Some n"
  shows "n < length s" and "s = take n s @ c # drop (Suc n) s" and "c \<notin> set (take n s)"
  using assms by (auto simp: str_find_Some_iff id_take_nth_drop)

lemma str_find_append [simp]: "c \<notin> set s \<Longrightarrow> str_find c (s @ c # t) = Some (length s)"
  by (induction s) auto

section \<open>Lists\<close>

lemma takeWhile_append_stop:
  "(\<forall>x \<in> set xs. P x) \<Longrightarrow> \<not> P y \<Longrightarrow> takeWhile P (xs @ y # ys) = xs"
  by (induction xs) auto

lemma dropWhile_append_stop:
  "(\<forall>x \<in> set xs. P x) \<Longrightarrow> \<not> P y \<Longrightarrow> dropWhile P (xs @ y # ys) = y # ys"
  by (induction xs) auto

lemma dropWhile_length_le: "length (dropWhile P xs) \<le> length xs"
  by (induction xs) auto

lemma dropWhile_head_not: "dropWhile P xs = y # ys \<Longrightarrow> \<not> P y"
  by (metis hd_dropWhile list.distinct(1) list.sel(1))

text \<open>Removing a run of characters from the end of a string, the shape of two trimming loops.\<close>

definition rstrip :: "(char \<Rightarrow> bool) \<Rightarrow> string \<Rightarrow> string" where
  "rstrip P s = rev (dropWhile P (rev s))"

lemma rstrip_snoc [simp]: "rstrip P (s @ [c]) = (if P c then rstrip P s else s @ [c])"
  by (simp add: rstrip_def)

lemma rstrip_Nil [simp]: "rstrip P [] = []"
  by (simp add: rstrip_def)

lemma rstrip_append_all: "(\<forall>c \<in> set t. P c) \<Longrightarrow> rstrip P (s @ t) = rstrip P s"
  by (induction t rule: rev_induct) (auto simp flip: append_assoc)

lemma rstrip_id: "s = [] \<or> \<not> P (last s) \<Longrightarrow> rstrip P s = s"
  by (cases s rule: rev_cases) auto

lemma rstrip_prefix: "\<exists>t. s = rstrip P s @ t \<and> (\<forall>c \<in> set t. P c)"
proof (induction s rule: rev_induct)
  case (snoc c s)
  then obtain t where "s = rstrip P s @ t" "\<forall>c \<in> set t. P c" by blast
  then show ?case by (intro exI [of _ "if P c then t @ [c] else []"]) auto
qed simp

lemma length_rstrip_le: "length (rstrip P s) \<le> length s"
  using rstrip_prefix [of s P] by (metis le_add1 length_append)

lemma last_rstrip: "rstrip P s \<noteq> [] \<Longrightarrow> \<not> P (last (rstrip P s))"
  by (induction s rule: rev_induct) auto

lemma set_rstrip_subset: "set (rstrip P s) \<subseteq> set s"
  using rstrip_prefix [of s P] by (metis set_append sup_ge1)

end
