(* ===== verification/Irc_Message.thy ===== *)
theory Irc_Message
  imports Prelude
begin

text \<open>
  \<^verbatim>\<open>src/src/IrcMessage.cpp\<close>: one line of the IRC protocol as a value, its parser and its
  printer.  A position \<open>pos\<close> into the frame is modelled by the suffix of the frame that starts
  there, so the loops that advance \<open>pos\<close> over spaces or over a token are \<open>dropWhile\<close> and
  \<open>takeWhile\<close> on that suffix.  A parse failure carries the text the C++ code stores through its
  \<open>error\<close> pointer.
\<close>

section \<open>The message type\<close>

record irc_message =
  msg_prefix :: string
  msg_command :: string
  msg_params :: "string list"
  msg_raw :: string

definition upper :: "string \<Rightarrow> string" where
  "upper value = map toupper value"

definition IrcMessage :: "string \<Rightarrow> string \<Rightarrow> string list \<Rightarrow> irc_message" where
  "IrcMessage messagePrefix messageCommand messageParams =
     \<lparr>msg_prefix = messagePrefix, msg_command = upper messageCommand,
      msg_params = messageParams, msg_raw = []\<rparr>"

definition isCommand :: "irc_message \<Rightarrow> string \<Rightarrow> bool" where
  "isCommand m name \<longleftrightarrow> msg_command m = upper name"

definition param :: "irc_message \<Rightarrow> nat \<Rightarrow> string \<Rightarrow> string" where
  "param m index fallback =
     (if length (msg_params m) \<le> index then fallback else msg_params m ! index)"

section \<open>Printing\<close>

definition needsTrailingMarker :: "string \<Rightarrow> bool" where
  "needsTrailingMarker value \<longleftrightarrow>
     value = [] \<or> str_find (CHR '' '') value \<noteq> None \<or> value ! 0 = CHR '':''"

text \<open>The loop of \<open>toLine\<close>: every parameter that needs it is marked, whatever its position.\<close>

fun toLine_params :: "string list \<Rightarrow> string" where
  "toLine_params [] = []"
| "toLine_params (value # rest) =
     CHR '' '' # (if needsTrailingMarker value then CHR '':'' # value else value) @
     toLine_params rest"

definition toLine :: "irc_message \<Rightarrow> string" where
  "toLine m =
     (if msg_prefix m \<noteq> [] then CHR '':'' # msg_prefix m @ '' '' else []) @
     msg_command m @ toLine_params (msg_params m) @ crlf"

section \<open>Parsing\<close>

function trimFrame :: "string \<Rightarrow> string" where
  "trimFrame trimmed =
     (if trimmed \<noteq> [] \<and> (last trimmed = LF \<or> last trimmed = CR)
      then trimFrame (butlast trimmed) else trimmed)"
  by pat_completeness auto
termination
  by (relation "measure length") (auto simp: length_greater_0_conv)

declare trimFrame.simps [simp del]

definition skipSpaces :: "string \<Rightarrow> string" where
  "skipSpaces s = dropWhile (\<lambda>c. c = CHR '' '') s"

definition parsePrefix :: "string \<Rightarrow> string + string \<times> string" where
  "parsePrefix trimmed =
     (if trimmed ! 0 = CHR '':'' then
        (case str_find (CHR '' '') trimmed of
           None \<Rightarrow> Inl ''message prefix is missing a command''
         | Some end \<Rightarrow>
             if end = 1 then Inl ''message prefix is missing a command''
             else Inr (take (end - 1) (drop 1 trimmed), drop (end + 1) trimmed))
      else Inr ([], trimmed))"

function parseParams :: "string \<Rightarrow> string list" where
  "parseParams s =
     (case skipSpaces s of
        [] \<Rightarrow> []
      | c # cs \<Rightarrow>
          if c = CHR '':'' then [cs]
          else takeWhile (\<lambda>d. d \<noteq> CHR '' '') (c # cs) #
               parseParams (dropWhile (\<lambda>d. d \<noteq> CHR '' '') (c # cs)))"
  by pat_completeness auto
termination
proof (relation "measure length", goal_cases)
  case (2 s c cs)
  then have "c \<noteq> CHR '' ''" and "length (c # cs) \<le> length s"
    using dropWhile_head_not [of _ s c cs] dropWhile_length_le [of _ s]
    by (auto simp: skipSpaces_def) (metis (no_types, lifting) dropWhile_length_le length_Cons)
  then show ?case
    using dropWhile_length_le [of "\<lambda>d. d \<noteq> CHR '' ''" cs] by simp
qed simp

declare parseParams.simps [simp del]

definition parseLine :: "string \<Rightarrow> string + irc_message" where
  "parseLine line =
     (let trimmed = trimFrame line in
      if trimmed = [] then Inl ''empty IRC frame''
      else if length trimmed > 510 then Inl ''IRC frame exceeds 510 octets before CRLF''
      else
        (case parsePrefix trimmed of
           Inl err \<Rightarrow> Inl err
         | Inr (prefix, rest) \<Rightarrow>
             (let start = skipSpaces rest;
                  command = takeWhile (\<lambda>c. c \<noteq> CHR '' '') start;
                  remaining = dropWhile (\<lambda>c. c \<noteq> CHR '' '') start
              in if command = [] then Inl ''IRC command is missing''
                 else Inr \<lparr>msg_prefix = prefix, msg_command = upper command,
                           msg_params = parseParams remaining, msg_raw = trimmed\<rparr>)))"

section \<open>Draining a buffer of frames\<close>

function consumeFrames ::
  "string \<Rightarrow> irc_message list \<Rightarrow> string option \<Rightarrow> irc_message list \<times> string \<times> string option"
where
  "consumeFrames buffer messages err =
     (case str_find LF buffer of
        None \<Rightarrow> (messages, buffer, err)
      | Some newline \<Rightarrow>
          (let frame = take (newline + 1) buffer; buffer' = drop (newline + 1) buffer in
           case parseLine frame of
             Inr message \<Rightarrow> consumeFrames buffer' (messages @ [message]) err
           | Inl localError \<Rightarrow> consumeFrames buffer' messages (Some localError)))"
  by pat_completeness auto
termination
  by (relation "measure (\<lambda>(buffer, messages, err). length buffer)")
     (auto dest: str_find_SomeD(1))

declare consumeFrames.simps [simp del]

definition consumeBuffer :: "string \<Rightarrow> irc_message list \<times> string \<times> string option" where
  "consumeBuffer buffer =
     (let (messages, rest, err) = consumeFrames buffer [] None in
      if length rest > 4096
      then (messages, [], Some ''discarded oversized partial IRC frame'')
      else (messages, rest, err))"

section \<open>Trimming and case folding\<close>

interpretation irc_upper: case_fold toupper upper
  by unfold_locales (simp_all add: upper_def)

lemma trimFrame_rstrip: "trimFrame s = rstrip line_end s"
proof (induction s rule: trimFrame.induct)
  case (1 s)
  then show ?case
    by (subst trimFrame.simps) (cases s rule: rev_cases, auto)
qed

lemma upper_mem_non_letter: "char_code d < 65 \<Longrightarrow> d \<in> set (upper s) \<longleftrightarrow> d \<in> set s"
  by (induction s) (auto simp: upper_def toupper_eq_non_letter eq_commute [of d])

lemma hd_upper_non_letter: "char_code d < 65 \<Longrightarrow> s \<noteq> [] \<Longrightarrow> hd (upper s) = d \<longleftrightarrow> hd s = d"
  by (cases s) (auto simp: upper_def toupper_eq_non_letter)

lemma last_upper_non_letter: "char_code d < 65 \<Longrightarrow> s \<noteq> [] \<Longrightarrow> last (upper s) = d \<longleftrightarrow> last s = d"
  by (simp add: upper_def last_map toupper_eq_non_letter)

section \<open>Frames that survive the wire\<close>

text \<open>
  A message is representable on the wire when its prefix and command are single tokens, only its
  last parameter needs the trailing marker, its text does not end in a line terminator and the
  frame fits in 510 octets.
\<close>

definition frame_body :: "irc_message \<Rightarrow> string" where
  "frame_body m =
     (if msg_prefix m \<noteq> [] then CHR '':'' # msg_prefix m @ '' '' else []) @
     msg_command m @ toLine_params (msg_params m)"

definition wire_ok :: "irc_message \<Rightarrow> bool" where
  "wire_ok m \<longleftrightarrow>
     CHR '' '' \<notin> set (msg_prefix m) \<and>
     msg_command m \<noteq> [] \<and> CHR '' '' \<notin> set (msg_command m) \<and>
     (msg_prefix m = [] \<longrightarrow> hd (msg_command m) \<noteq> CHR '':'') \<and>
     (\<forall>p \<in> set (butlast (msg_params m)). \<not> needsTrailingMarker p) \<and>
     \<not> line_end (last (frame_body m)) \<and>
     length (frame_body m) \<le> 510"

lemma needsTrailingMarker_iff:
  "needsTrailingMarker v \<longleftrightarrow> v = [] \<or> CHR '' '' \<in> set v \<or> hd v = CHR '':''"
  unfolding needsTrailingMarker_def str_find_None_iff by (auto simp: hd_conv_nth)

lemma toLine_frame_body: "toLine m = frame_body m @ crlf"
  by (simp add: toLine_def frame_body_def)

lemma skipSpaces_token:
  "s \<noteq> [] \<Longrightarrow> hd s \<noteq> CHR '' '' \<Longrightarrow> skipSpaces (s @ t) = s @ t"
  by (cases s) (auto simp: skipSpaces_def)

text \<open>A token followed by nothing or by a space is read back whole.\<close>

definition token_end :: "string \<Rightarrow> bool" where
  "token_end t \<longleftrightarrow> t = [] \<or> hd t = CHR '' ''"

lemma token_end_toLine_params [simp]: "token_end (toLine_params ps)"
  by (cases ps) (auto simp: token_end_def)

lemma token_end_dropWhile [simp]: "token_end (dropWhile (\<lambda>c. c \<noteq> CHR '' '') s)"
  by (induction s) (auto simp: token_end_def)

lemma read_token:
  assumes "CHR '' '' \<notin> set s" and "token_end t"
  shows "takeWhile (\<lambda>c. c \<noteq> CHR '' '') (s @ t) = s"
    and "dropWhile (\<lambda>c. c \<noteq> CHR '' '') (s @ t) = t"
proof -
  have all: "\<forall>c \<in> set s. c \<noteq> CHR '' ''" using assms(1) by auto
  show "takeWhile (\<lambda>c. c \<noteq> CHR '' '') (s @ t) = s"
    using assms(2) all by (cases t) (auto simp: token_end_def takeWhile_append_stop)
  show "dropWhile (\<lambda>c. c \<noteq> CHR '' '') (s @ t) = t"
    using assms(2) all by (cases t) (auto simp: token_end_def dropWhile_append_stop)
qed

lemma parseParams_Nil [simp]: "parseParams [] = []"
  by (simp add: parseParams.simps skipSpaces_def)

lemma parseParams_trailing: "parseParams (CHR '' '' # CHR '':'' # v) = [v]"
  by (simp add: parseParams.simps skipSpaces_def)

lemma parseParams_token:
  assumes "\<not> needsTrailingMarker v" and "token_end t"
  shows "parseParams (CHR '' '' # v @ t) = v # parseParams t"
proof -
  obtain c cs where v: "v = c # cs" and c: "c \<noteq> CHR '':''" "CHR '' '' \<notin> set v"
    using assms(1) by (cases v) (auto simp: needsTrailingMarker_iff)
  then have "skipSpaces (CHR '' '' # v @ t) = c # (cs @ t)"
    by (auto simp: skipSpaces_def)
  then have "parseParams (CHR '' '' # v @ t) =
      takeWhile (\<lambda>d. d \<noteq> CHR '' '') (v @ t) # parseParams (dropWhile (\<lambda>d. d \<noteq> CHR '' '') (v @ t))"
    using v c(1) by (subst parseParams.simps) simp
  then show ?thesis by (simp add: read_token [OF c(2) assms(2)])
qed

lemma parseParams_toLine_params:
  "(\<forall>p \<in> set (butlast ps). \<not> needsTrailingMarker p) \<Longrightarrow> parseParams (toLine_params ps) = ps"
proof (induction ps)
  case (Cons v rest)
  show ?case
  proof (cases "needsTrailingMarker v")
    case True
    then have "rest = []" using Cons.prems by (cases rest) auto
    with True show ?thesis by (simp add: parseParams_trailing)
  next
    case False
    moreover have "\<forall>p \<in> set (butlast rest). \<not> needsTrailingMarker p"
      using Cons.prems by (cases rest) auto
    ultimately show ?thesis using Cons.IH by (simp add: parseParams_token)
  qed
qed simp

lemma parsePrefix_prefix:
  assumes "pfx \<noteq> []" and "CHR '' '' \<notin> set pfx"
  shows "parsePrefix (CHR '':'' # pfx @ CHR '' '' # rest) = Inr (pfx, rest)"
proof -
  have "str_find (CHR '' '') ((CHR '':'' # pfx) @ CHR '' '' # rest) = Some (length (CHR '':'' # pfx))"
    using assms(2) by (intro str_find_append) auto
  then show ?thesis using assms(1) by (simp add: parsePrefix_def)
qed

lemma parsePrefix_none: "s \<noteq> [] \<Longrightarrow> hd s \<noteq> CHR '':'' \<Longrightarrow> parsePrefix s = Inr ([], s)"
  by (cases s) (auto simp: parsePrefix_def)

lemma parsePrefix_frame_body:
  assumes "wire_ok m"
  shows "parsePrefix (frame_body m) = Inr (msg_prefix m, msg_command m @ toLine_params (msg_params m))"
  using assms
  by (cases "msg_prefix m = []")
     (auto simp: wire_ok_def frame_body_def parsePrefix_prefix intro!: parsePrefix_none)

text \<open>Printing a representable message and parsing the frame gives the message back.\<close>

lemma parseLine_toLine:
  assumes "wire_ok m"
  shows "parseLine (toLine m) = Inr (m\<lparr>msg_command := upper (msg_command m), msg_raw := frame_body m\<rparr>)"
proof -
  have body: "frame_body m \<noteq> []" using assms by (auto simp: wire_ok_def frame_body_def)
  have "rstrip line_end (frame_body m @ crlf) = rstrip line_end (frame_body m)"
    by (rule rstrip_append_all) simp
  moreover have "rstrip line_end (frame_body m) = frame_body m"
    using assms by (intro rstrip_id) (auto simp: wire_ok_def)
  ultimately have trim: "trimFrame (toLine m) = frame_body m"
    by (simp add: trimFrame_rstrip toLine_frame_body)
  have cmd: "msg_command m \<noteq> []" "CHR '' '' \<notin> set (msg_command m)" and len: "length (frame_body m) \<le> 510"
    using assms by (auto simp: wire_ok_def)
  then have skip: "skipSpaces (msg_command m @ toLine_params (msg_params m))
                     = msg_command m @ toLine_params (msg_params m)"
    by (intro skipSpaces_token) (auto simp: hd_in_set dest: hd_in_set)
  show ?thesis
    using len cmd body assms
    by (simp add: parseLine_def trim parsePrefix_frame_body skip read_token parseParams_toLine_params
        wire_ok_def)
qed

section \<open>What the parser returns\<close>

lemma parseParams_step:
  assumes "skipSpaces s = c # cs" and "c \<noteq> CHR '':''"
  obtains tok r where "c # cs = tok @ r" and "\<not> needsTrailingMarker tok" and "token_end r"
    and "parseParams s = tok # parseParams r"
    and "dropWhile (\<lambda>d. d \<noteq> CHR '' '') (c # cs) = r"
proof -
  let ?tok = "takeWhile (\<lambda>d. d \<noteq> CHR '' '') (c # cs)"
  let ?r = "dropWhile (\<lambda>d. d \<noteq> CHR '' '') (c # cs)"
  have "c \<noteq> CHR '' ''"
    using assms(1) dropWhile_head_not [of "\<lambda>c. c = CHR '' ''" s c cs] by (simp add: skipSpaces_def)
  then have "\<not> needsTrailingMarker ?tok"
    using assms(2) by (auto simp: needsTrailingMarker_iff dest: set_takeWhileD)
  moreover have "token_end ?r"
    by (rule token_end_dropWhile)
  moreover have "parseParams s = ?tok # parseParams ?r"
    using assms by (subst parseParams.simps) simp
  ultimately show ?thesis using that by (metis takeWhile_dropWhile_id)
qed

text \<open>Only the last parameter of a parsed message can need the trailing marker.\<close>

lemma parseParams_middle: "\<forall>p \<in> set (butlast (parseParams s)). \<not> needsTrailingMarker p"
proof (induction s rule: parseParams.induct)
  case (1 s)
  show ?case
  proof (cases "skipSpaces s")
    case Nil
    then show ?thesis by (simp add: parseParams.simps)
  next
    case (Cons c cs)
    show ?thesis
    proof (cases "c = CHR '':''")
      case True
      with Cons show ?thesis by (simp add: parseParams.simps)
    next
      case False
      from Cons False obtain tok r where "\<not> needsTrailingMarker tok"
        and "parseParams s = tok # parseParams r" and "dropWhile (\<lambda>d. d \<noteq> CHR '' '') (c # cs) = r"
        by (rule parseParams_step)
      with "1.IH" [OF Cons False] show ?thesis by (auto split: if_splits)
    qed
  qed
qed

lemma skipSpaces_shorter:
  assumes "token_end s" and "skipSpaces s = c # cs"
  shows "length (c # cs) < length s"
proof -
  from assms obtain list where "s = CHR '' '' # list" and "dropWhile (\<lambda>c. c = CHR '' '') list = c # cs"
    by (cases s) (auto simp: token_end_def skipSpaces_def)
  then show ?thesis using dropWhile_length_le [of "\<lambda>c. c = CHR '' ''" list] by simp
qed

lemma set_skipSpaces: "set (skipSpaces s) \<subseteq> set s"
  by (auto simp: skipSpaces_def dest: set_dropWhileD)

text \<open>Reprinting parsed parameters needs no more room and no other characters than the input.\<close>

lemma reprint_params:
  "token_end s \<Longrightarrow> length (toLine_params (parseParams s)) \<le> length s \<and>
     set (toLine_params (parseParams s)) \<subseteq> insert (CHR '':'') (insert (CHR '' '') (set s))"
proof (induction s rule: parseParams.induct)
  case (1 s)
  show ?case
  proof (cases "skipSpaces s")
    case Nil
    then show ?thesis by (simp add: parseParams.simps)
  next
    case (Cons c cs)
    note shorter = skipSpaces_shorter [OF "1.prems" Cons]
    have sub: "set (c # cs) \<subseteq> set s" using set_skipSpaces [of s] Cons by simp
    show ?thesis
    proof (cases "c = CHR '':''")
      case True
      with Cons shorter sub show ?thesis by (simp add: parseParams.simps) blast
    next
      case False
      from Cons False obtain tok r where tok: "c # cs = tok @ r" "\<not> needsTrailingMarker tok" "token_end r"
        "parseParams s = tok # parseParams r" "dropWhile (\<lambda>d. d \<noteq> CHR '' '') (c # cs) = r"
        by (rule parseParams_step)
      from "1.IH" [OF Cons False] tok(3,5)
      have IH: "length (toLine_params (parseParams r)) \<le> length r"
        "set (toLine_params (parseParams r)) \<subseteq> insert (CHR '':'') (insert (CHR '' '') (set r))"
        by simp_all
      have "length s > length tok + length r" using shorter tok(1) by (metis length_append)
      moreover have "set tok \<union> set r \<subseteq> set s" using sub tok(1) by (metis set_append)
      ultimately show ?thesis using IH tok(2,4) by auto
    qed
  qed
qed

lemma parsePrefix_cases:
  assumes "parsePrefix s = Inr (pfx, rest)" and "s \<noteq> []"
  obtains (none) "pfx = []" "rest = s" "hd s \<noteq> CHR '':''"
  | (prefixed) "pfx \<noteq> []" "CHR '' '' \<notin> set pfx" "s = CHR '':'' # pfx @ CHR '' '' # rest"
proof (cases "s ! 0 = CHR '':''")
  case False
  with assms that(1) show ?thesis by (simp add: parsePrefix_def hd_conv_nth)
next
  case True
  with assms obtain n where n: "str_find (CHR '' '') s = Some n" "n \<noteq> 1"
    "pfx = take (n - 1) (drop 1 s)" "rest = drop (n + 1) s"
    by (auto simp: parsePrefix_def split: option.splits if_splits)
  obtain s' where s: "s = CHR '':'' # s'" using True assms(2) by (cases s) auto
  with n(1,2) obtain k where k: "n = Suc (Suc k)" "str_find (CHR '' '') s' = Some (Suc k)"
    by (cases n) (auto simp: gr0_conv_Suc)
  then show ?thesis
    using that(2) n(3,4) s str_find_SomeD [OF k(2)] by (cases s') auto
qed

lemma parseLine_InrE:
  assumes "parseLine line = Inr m"
  obtains cmd rest r where "msg_raw m = trimFrame line" and "msg_raw m \<noteq> []" and "length (msg_raw m) \<le> 510"
    and "parsePrefix (msg_raw m) = Inr (msg_prefix m, rest)"
    and "skipSpaces rest = cmd @ r" and "cmd \<noteq> []" and "CHR '' '' \<notin> set cmd" and "token_end r"
    and "msg_command m = upper cmd" and "msg_params m = parseParams r"
proof -
  let ?t = "trimFrame line"
  from assms obtain pfx rest where *: "?t \<noteq> []" "length ?t \<le> 510" "parsePrefix ?t = Inr (pfx, rest)"
    and m: "takeWhile (\<lambda>c. c \<noteq> CHR '' '') (skipSpaces rest) \<noteq> []"
    "m = \<lparr>msg_prefix = pfx, msg_command = upper (takeWhile (\<lambda>c. c \<noteq> CHR '' '') (skipSpaces rest)),
      msg_params = parseParams (dropWhile (\<lambda>c. c \<noteq> CHR '' '') (skipSpaces rest)), msg_raw = ?t\<rparr>"
    by (auto simp: parseLine_def Let_def split: if_splits sum.splits)
  have "token_end (dropWhile (\<lambda>c. c \<noteq> CHR '' '') (skipSpaces rest))"
    by (rule token_end_dropWhile)
  moreover have "CHR '' '' \<notin> set (takeWhile (\<lambda>c. c \<noteq> CHR '' '') (skipSpaces rest))"
    by (auto dest: set_takeWhileD)
  ultimately show ?thesis
    using * m that [of rest "takeWhile (\<lambda>c. c \<noteq> CHR '' '') (skipSpaces rest)"
        "dropWhile (\<lambda>c. c \<noteq> CHR '' '') (skipSpaces rest)"]
    by simp
qed

lemma frame_body_bounds:
  assumes "parseLine line = Inr m"
  shows "length (frame_body m) \<le> 510"
    and "set (frame_body m) \<subseteq> insert (CHR '':'') (insert (CHR '' '') (set (upper (msg_raw m)) \<union> set (msg_raw m)))"
proof -
  from assms obtain cmd rest r where raw: "msg_raw m \<noteq> []" "length (msg_raw m) \<le> 510"
    and pfx: "parsePrefix (msg_raw m) = Inr (msg_prefix m, rest)"
    and cmd: "skipSpaces rest = cmd @ r" "token_end r" "msg_command m = upper cmd" "msg_params m = parseParams r"
    by (rule parseLine_InrE)
  note reprint = reprint_params [OF cmd(2)]
  have len: "length cmd + length r \<le> length rest"
    using cmd(1) dropWhile_length_le [of "\<lambda>c. c = CHR '' ''" rest] by (simp add: skipSpaces_def)
  have sub: "set cmd \<union> set r \<subseteq> set rest" using set_skipSpaces [of rest] cmd(1) by simp
  from pfx raw(1) show "length (frame_body m) \<le> 510"
    by (cases rule: parsePrefix_cases)
       (use len reprint raw(2) in \<open>auto simp: frame_body_def cmd irc_upper.fold_string_length\<close>)
  have "set rest \<subseteq> set (msg_raw m)" "set (msg_prefix m) \<subseteq> set (msg_raw m)"
    using pfx raw(1) by (cases rule: parsePrefix_cases; auto)+
  moreover have "set (upper cmd) \<subseteq> set (upper (msg_raw m))"
    using calculation(1) sub by (auto simp: upper_def)
  ultimately show "set (frame_body m) \<subseteq>
      insert (CHR '':'') (insert (CHR '' '') (set (upper (msg_raw m)) \<union> set (msg_raw m)))"
    using reprint sub by (auto simp: frame_body_def cmd)
qed

lemma parseLine_wire_ok:
  assumes parsed: "parseLine line = Inr m"
    and no_eol: "CR \<notin> set (msg_raw m)" "LF \<notin> set (msg_raw m)"
    and colon: "hd (msg_command m) \<noteq> CHR '':''"
  shows "wire_ok m"
proof -
  from parsed obtain cmd rest r where raw: "msg_raw m \<noteq> []"
    and pfx: "parsePrefix (msg_raw m) = Inr (msg_prefix m, rest)"
    and cmd: "cmd \<noteq> []" "CHR '' '' \<notin> set cmd" "msg_command m = upper cmd" "msg_params m = parseParams r"
    by (rule parseLine_InrE)
  have "CHR '' '' \<notin> set (msg_prefix m)"
    using pfx raw by (cases rule: parsePrefix_cases) auto
  moreover have body: "frame_body m \<noteq> []"
    using cmd by (simp add: frame_body_def irc_upper.fold_string_empty_iff)
  have "\<not> line_end c" if "c \<in> set (frame_body m)" for c
    using frame_body_bounds(2) [OF parsed] that no_eol
    by (auto simp: upper_mem_non_letter)
  then have "\<not> line_end (last (frame_body m))" using body last_in_set by blast
  ultimately show ?thesis
    using frame_body_bounds(1) [OF parsed] cmd colon
    by (simp add: wire_ok_def irc_upper.fold_string_empty_iff upper_mem_non_letter parseParams_middle)
qed

text \<open>
  C31: The parser and the printer of \<open>IrcMessage\<close> are inverse: every message that fits on the wire
  (token prefix and command, only the last parameter needs the trailing marker, at most 510 octets)
  is printed by \<open>toLine\<close> as a frame that \<open>parseLine\<close> reads back as the same prefix and the same
  parameters, with the command in upper case.
\<close>

theorem print_parse_roundtrip:
  assumes "wire_ok m"
  shows "parseLine (toLine m) =
           Inr (m\<lparr>msg_command := upper (msg_command m), msg_raw := frame_body m\<rparr>)"
  using assms by (rule parseLine_toLine)

theorem print_parse_roundtrip_witness:
  "parseLine (toLine (IrcMessage ''al!u@h'' ''privmsg'' [''#room'', ''hello  all: x''])) =
     Inr \<lparr>msg_prefix = ''al!u@h'', msg_command = ''PRIVMSG'', msg_params = [''#room'', ''hello  all: x''],
          msg_raw = '':al!u@h PRIVMSG #room :hello  all: x''\<rparr>"
proof -
  have "wire_ok (IrcMessage ''al!u@h'' ''privmsg'' [''#room'', ''hello  all: x''])" by code_simp
  from print_parse_roundtrip [OF this] show ?thesis by (rule trans) code_simp
qed

text \<open>
  Parsing is stable under relaying: for every line the parser accepts (no stray line terminator
  inside the frame and no command that starts with a colon), reprinting the parsed message and
  parsing the result yields the same prefix, command and parameters again.
\<close>

lemma parse_print_parse:
  assumes "parseLine line = Inr m"
    and "CR \<notin> set (msg_raw m)" and "LF \<notin> set (msg_raw m)"
    and "hd (msg_command m) \<noteq> CHR '':''"
  shows "parseLine (toLine m) = Inr (m\<lparr>msg_raw := frame_body m\<rparr>)"
proof -
  from assms(1) obtain cmd where "msg_command m = upper cmd" by (rule parseLine_InrE)
  then have "upper (msg_command m) = msg_command m" by (simp add: irc_upper.fold_string_idem)
  with parseLine_toLine [OF parseLine_wire_ok [OF assms]] show ?thesis by simp
qed

section \<open>Batches of frames\<close>

definition good_frames :: "string list \<Rightarrow> irc_message list" where
  "good_frames ls = List.map_filter (\<lambda>l. case parseLine l of Inl e \<Rightarrow> None | Inr m \<Rightarrow> Some m) ls"

definition last_error :: "string list \<Rightarrow> string option \<Rightarrow> string option" where
  "last_error ls err = fold (\<lambda>l err. case parseLine l of Inl e \<Rightarrow> Some e | Inr m \<Rightarrow> err) ls err"

lemma parseLine_snoc_LF: "parseLine (l @ [LF]) = parseLine l"
proof -
  have "trimFrame (l @ [LF]) = trimFrame l" by (simp add: trimFrame_rstrip)
  then show ?thesis by (simp only: parseLine_def)
qed

lemma consumeFrames_none: "LF \<notin> set tail \<Longrightarrow> consumeFrames tail ms err = (ms, tail, err)"
  using str_find_None_iff [of LF tail] by (simp add: consumeFrames.simps)

lemma consumeFrames_cons:
  assumes "LF \<notin> set l"
  shows "consumeFrames (l @ LF # rest) ms err =
    (case parseLine l of Inr m \<Rightarrow> consumeFrames rest (ms @ [m]) err
                       | Inl e \<Rightarrow> consumeFrames rest ms (Some e))"
proof -
  have "take (Suc (length l)) (l @ LF # rest) = l @ [LF]" by simp
  then show ?thesis
    using str_find_append [OF assms, of rest] parseLine_snoc_LF [of l]
    by (subst consumeFrames.simps) (simp add: Let_def split: sum.split)
qed

lemma consumeFrames_batch:
  "(\<forall>l \<in> set ls. LF \<notin> set l) \<Longrightarrow> LF \<notin> set tail \<Longrightarrow>
   consumeFrames (concat (map (\<lambda>l. l @ [LF]) ls) @ tail) ms err =
     (ms @ good_frames ls, tail, last_error ls err)"
proof (induction ls arbitrary: ms err)
  case Nil
  then show ?case by (simp add: consumeFrames_none good_frames_def last_error_def List.map_filter_simps)
next
  case (Cons l ls)
  then show ?case
    by (simp add: consumeFrames_cons good_frames_def last_error_def List.map_filter_simps split: sum.split)
qed

text \<open>
  C32: \<open>consumeBuffer\<close> isolates malformed frames: from a buffer that holds the terminated frames
  \<open>ls\<close> and an unterminated tail it returns exactly the messages of the well-formed frames, in
  order, however many malformed frames stand between them; the tail stays in the buffer unless it
  exceeds 4096 bytes, in which case it is dropped and reported.
\<close>

theorem consumeBuffer_batch:
  assumes "\<forall>l \<in> set ls. LF \<notin> set l" and "LF \<notin> set tail"
  shows "consumeBuffer (concat (map (\<lambda>l. l @ [LF]) ls) @ tail) =
    (if length tail > 4096
     then (good_frames ls, [], Some ''discarded oversized partial IRC frame'')
     else (good_frames ls, tail, last_error ls None))"
  using assms by (simp add: consumeBuffer_def consumeFrames_batch)

theorem consumeBuffer_batch_witness:
  "consumeBuffer (concat (map (\<lambda>l. l @ [LF]) [''PING a'' @ [CR], '''', ''NICK bob'']) @ ''QU'') =
     ([\<lparr>msg_prefix = [], msg_command = ''PING'', msg_params = [''a''], msg_raw = ''PING a''\<rparr>,
       \<lparr>msg_prefix = [], msg_command = ''NICK'', msg_params = [''bob''], msg_raw = ''NICK bob''\<rparr>],
      ''QU'', Some ''empty IRC frame'')"
proof -
  have "\<forall>l \<in> set [''PING a'' @ [CR], '''', ''NICK bob'']. LF \<notin> set l" and "LF \<notin> set ''QU''"
    by simp_all
  from consumeBuffer_batch [OF this] show ?thesis by (rule trans) code_simp
qed

end
