(* ===== verification/Replies.thy ===== *)
theory Replies
  imports Irc_Message
begin

text \<open>
  \<^verbatim>\<open>src/src/Replies.cpp\<close>: the server's own output lines.  Every line the application sends is built
  here, so the round trip through \<open>parseLine\<close> shown below is what a client that follows the same
  grammar reads.
\<close>

section \<open>Definitions\<close>

definition code :: "int \<Rightarrow> string" where
  "code numeric = (let s = show_int numeric in replicate (3 - length s) (CHR ''0'') @ s)"

fun formatParams :: "string list \<Rightarrow> string" where
  "formatParams [] = []"
| "formatParams [p] = CHR '' '' # (if needsTrailingMarker p then CHR '':'' # p else p)"
| "formatParams (p # q # ps) = CHR '' '' # p @ formatParams (q # ps)"

definition formatMessage :: "string \<Rightarrow> string \<Rightarrow> string list \<Rightarrow> string" where
  "formatMessage prefix command params =
     (if prefix \<noteq> [] then CHR '':'' # prefix @ '' '' else []) @
     command @ formatParams params @ crlf"

definition numeric :: "string \<Rightarrow> string \<Rightarrow> int \<Rightarrow> string list \<Rightarrow> string \<Rightarrow> string" where
  "numeric serverName target numericCode params trailing =
     (let allParams = [if target = [] then ''*'' else target] @ params @ [trailing] in
      formatMessage serverName (code numericCode) allParams)"

definition error_line :: "string \<Rightarrow> string" where
  "error_line message = formatMessage [] ''ERROR'' [message]"

definition hostmask :: "string \<Rightarrow> string \<Rightarrow> string \<Rightarrow> string" where
  "hostmask nick user host =
     (let safeUser = (if user = [] then ''unknown'' else user);
          safeHost = (if host = [] then ''localhost'' else host)
      in nick @ ''!'' @ safeUser @ ''@'' @ safeHost)"

section \<open>The two printers\<close>

text \<open>
  \<open>formatMessage\<close> marks only the last parameter, \<open>IrcMessage::toLine\<close> any of them; they agree when
  no earlier parameter needs the marker.
\<close>

lemma formatParams_toLine_params:
  "(\<forall>p \<in> set (butlast ps). \<not> needsTrailingMarker p) \<Longrightarrow> formatParams ps = toLine_params ps"
  by (induction ps rule: formatParams.induct) auto

lemma formatMessage_toLine:
  "(\<forall>p \<in> set (butlast (msg_params m)). \<not> needsTrailingMarker p) \<Longrightarrow>
   formatMessage (msg_prefix m) (msg_command m) (msg_params m) = toLine m"
  by (simp add: formatMessage_def toLine_def formatParams_toLine_params)

text \<open>
  \<open>Replies::formatMessage\<close> and \<open>IrcMessage::parseLine\<close> are inverse: the line built for a
  representable message is read back with the same prefix and parameters.
\<close>

lemma format_parse_roundtrip:
  assumes "wire_ok m"
  shows "parseLine (formatMessage (msg_prefix m) (msg_command m) (msg_params m)) =
           Inr (m\<lparr>msg_command := upper (msg_command m), msg_raw := frame_body m\<rparr>)"
proof -
  have "formatMessage (msg_prefix m) (msg_command m) (msg_params m) = toLine m"
    using assms by (intro formatMessage_toLine) (simp add: wire_ok_def)
  then show ?thesis using parseLine_toLine [OF assms] by simp
qed

section \<open>Numeric replies\<close>

lemma code_range:
  assumes "0 \<le> n" and "n < 1000"
  shows "length (code n) = 3 \<and> (\<forall>c \<in> set (code n). isdigit c) \<and> dec_val 0 (code n) = nat n"
proof -
  have len: "length (show_nat k) \<le> 3" if "k < 1000" for k
    using that by (subst show_nat.simps, subst show_nat.simps, subst show_nat.simps) auto
  have zeros: "dec_val 0 (replicate k (CHR ''0'') @ s) = dec_val 0 s" for k s
    by (induction k) (auto simp: digit_val_def)
  have "isdigit (CHR ''0'')" by (simp add: isdigit_def)
  then show ?thesis
    using assms len [of "nat n"] show_nat_digits [of "nat n"]
    by (auto simp: code_def show_int_def Let_def zeros dec_val_show_nat)
qed

end
