(* ===== verification/Containers.thy ===== *)
theory Containers
  imports Prelude
begin

text \<open>
  \<open>std::map\<close> and \<open>std::set\<close>: ordered containers whose iteration visits the keys in ascending
  order.  The type \<open>omap\<close> holds exactly the association lists with strictly ascending keys, so
  two maps are equal iff they hold the same entries, and iteration order is part of the model.
  The locale \<open>ordered_map\<close> states what the clients of the container use; it is interpreted on
  \<open>omap\<close>.
\<close>

section \<open>The contract of an ordered map\<close>

locale ordered_map =
  fixes empty_map :: "'m"
    and get :: "'m \<Rightarrow> 'k::linorder \<Rightarrow> 'v option"
    and put :: "'k \<Rightarrow> 'v \<Rightarrow> 'm \<Rightarrow> 'm"
    and del :: "'k \<Rightarrow> 'm \<Rightarrow> 'm"
    and keys_of :: "'m \<Rightarrow> 'k list"
  assumes get_empty: "get empty_map k = None"
    and get_put: "get (put k v m) = (get m)(k \<mapsto> v)"
    and get_del: "get (del k m) = (get m)(k := None)"
    and set_keys_of: "set (keys_of m) = dom (get m)"
    and sorted_keys_of: "sorted_wrt (<) (keys_of m)"
begin

lemma finite_dom_get: "finite (dom (get m))"
  by (metis List.finite_set set_keys_of)

lemma distinct_keys_of: "distinct (keys_of m)"
  using sorted_keys_of strict_sorted_iff by blast

lemma length_keys_of: "length (keys_of m) = card (dom (get m))"
  by (metis distinct_card distinct_keys_of set_keys_of)

lemma keys_of_unique: "dom (get m) = dom (get m') \<Longrightarrow> keys_of m = keys_of m'"
  by (metis set_keys_of sorted_keys_of strict_sorted_equal)

lemma dom_get_put: "dom (get (put k v m)) = insert k (dom (get m))"
  by (simp add: get_put)

lemma dom_get_del: "dom (get (del k m)) = dom (get m) - {k}"
  by (simp add: get_del)

lemma length_keys_del:
  "get m k = Some v \<Longrightarrow> length (keys_of (del k m)) < length (keys_of m)"
  unfolding length_keys_of dom_get_del by (rule card_Diff1_less) (auto simp: finite_dom_get)

text \<open>Erasing a list of keys, the loop that follows an iteration which may not erase.\<close>

lemma get_fold_del: "get (fold del ks m) k = (if k \<in> set ks then None else get m k)"
  by (induction ks arbitrary: m) (auto simp: get_del)

end

section \<open>Sorted association lists\<close>

fun al_put :: "'k::linorder \<Rightarrow> 'v \<Rightarrow> ('k \<times> 'v) list \<Rightarrow> ('k \<times> 'v) list" where
  "al_put k v [] = [(k, v)]"
| "al_put k v ((k', v') # xs) =
     (if k < k' then (k, v) # (k', v') # xs
      else if k = k' then (k, v) # xs
      else (k', v') # al_put k v xs)"

definition al_del :: "'k \<Rightarrow> ('k \<times> 'v) list \<Rightarrow> ('k \<times> 'v) list" where
  "al_del k xs = filter (\<lambda>(k', v). k' \<noteq> k) xs"

lemma map_of_al_put: "map_of (al_put k v xs) = (map_of xs)(k \<mapsto> v)"
  by (induction k v xs rule: al_put.induct) auto

lemma map_of_al_del: "map_of (al_del k xs) = (map_of xs)(k := None)"
  by (induction xs) (auto simp: al_del_def)

lemma fst_set_al_put: "fst ` set (al_put k v xs) = insert k (fst ` set xs)"
  by (induction k v xs rule: al_put.induct) (auto simp: insert_commute)

lemma sorted_al_put:
  "sorted_wrt (<) (map fst xs) \<Longrightarrow> sorted_wrt (<) (map fst (al_put k v xs))"
  by (induction k v xs rule: al_put.induct) (auto simp: fst_set_al_put simp flip: image_set)

lemma sorted_al_del:
  "sorted_wrt (<) (map fst xs) \<Longrightarrow> sorted_wrt (<) (map fst (al_del k xs))"
  by (induction xs) (auto simp: al_del_def)

section \<open>The container type\<close>

typedef (overloaded) ('k, 'v) omap = "{xs :: ('k::linorder \<times> 'v) list. sorted_wrt (<) (map fst xs)}"
  morphisms om_entries Abs_omap
  by (rule exI [of _ "[]"]) simp

setup_lifting type_definition_omap

lift_definition om_empty :: "('k::linorder, 'v) omap" is "[]" by simp

lift_definition om_get :: "('k::linorder, 'v) omap \<Rightarrow> 'k \<Rightarrow> 'v option" is "\<lambda>xs k. map_of xs k" .

lift_definition om_put :: "'k::linorder \<Rightarrow> 'v \<Rightarrow> ('k, 'v) omap \<Rightarrow> ('k, 'v) omap" is al_put
  by (rule sorted_al_put)

lift_definition om_del :: "'k::linorder \<Rightarrow> ('k, 'v) omap \<Rightarrow> ('k, 'v) omap" is al_del
  by (rule sorted_al_del)

lift_definition om_map :: "('k \<Rightarrow> 'v \<Rightarrow> 'w) \<Rightarrow> ('k::linorder, 'v) omap \<Rightarrow> ('k, 'w) omap" is
  "\<lambda>f xs. map (\<lambda>(k, v). (k, f k v)) xs"
  by (simp add: comp_def case_prod_beta')

lift_definition om_filter :: "('k \<Rightarrow> bool) \<Rightarrow> ('k::linorder, 'v) omap \<Rightarrow> ('k, 'v) omap" is
  "\<lambda>P xs. filter (\<lambda>(k, v). P k) xs"
proof -
  fix P :: "'k \<Rightarrow> bool" and xs :: "('k \<times> 'v) list"
  have "map fst (filter (\<lambda>(k, v). P k) xs) = filter P (map fst xs)"
    by (induction xs) auto
  then show "sorted_wrt (<) (map fst xs) \<Longrightarrow> sorted_wrt (<) (map fst (filter (\<lambda>(k, v). P k) xs))"
    by (simp add: sorted_wrt_filter)
qed

definition om_keys :: "('k::linorder, 'v) omap \<Rightarrow> 'k list" where
  "om_keys m = map fst (om_entries m)"

definition om_size :: "('k::linorder, 'v) omap \<Rightarrow> nat" where
  "om_size m = length (om_entries m)"

abbreviation om_has :: "('k::linorder, 'v) omap \<Rightarrow> 'k \<Rightarrow> bool" where
  "om_has m k \<equiv> om_get m k \<noteq> None"

abbreviation om_dom :: "('k::linorder, 'v) omap \<Rightarrow> 'k set" where
  "om_dom m \<equiv> dom (om_get m)"

lemma om_get_put_fun: "om_get (om_put k v m) = (om_get m)(k \<mapsto> v)"
  by transfer (simp add: map_of_al_put fun_eq_iff)

lemma om_get_del_fun: "om_get (om_del k m) = (om_get m)(k := None)"
  by transfer (simp add: map_of_al_del fun_eq_iff)

lemma om_get_empty [simp]: "om_get om_empty k = None"
  by transfer simp

lemma om_dom_keys: "set (om_keys m) = om_dom m"
  unfolding om_keys_def by transfer (force simp: dom_map_of_conv_image_fst)

lemma om_sorted_keys: "sorted_wrt (<) (om_keys m)"
  unfolding om_keys_def by transfer simp

interpretation om: ordered_map om_empty om_get om_put om_del om_keys
  by unfold_locales
    (simp_all add: om_get_put_fun om_get_del_fun om_dom_keys om_sorted_keys)

section \<open>Facts used by the automation\<close>

lemma om_get_put [simp]: "om_get (om_put k v m) k' = (if k' = k then Some v else om_get m k')"
  by (simp add: om_get_put_fun)

lemma om_get_del [simp]: "om_get (om_del k m) k' = (if k' = k then None else om_get m k')"
  by (simp add: om_get_del_fun)

lemma map_of_map_keyed: "map_of (map (\<lambda>(k, v). (k, f k v)) xs) k = map_option (f k) (map_of xs k)"
  by (induction xs) auto

lemma om_get_map [simp]: "om_get (om_map f m) k = map_option (f k) (om_get m k)"
  by transfer (rule map_of_map_keyed)

lemma om_get_filter [simp]: "om_get (om_filter P m) k = (if P k then om_get m k else None)"
proof -
  have "map_of (filter (\<lambda>(k, v). P k) xs) k = (if P k then map_of xs k else None)" for xs :: "('b \<times> 'a) list"
    by (induction xs) auto
  then show ?thesis by transfer auto
qed

lemma om_dom_map [simp]: "om_dom (om_map f m) = om_dom m"
  by auto

lemma om_dom_put [simp]: "om_dom (om_put k v m) = insert k (om_dom m)"
  by (rule om.dom_get_put)

lemma om_dom_del [simp]: "om_dom (om_del k m) = om_dom m - {k}"
  by (rule om.dom_get_del)

lemma om_finite_dom [simp]: "finite (om_dom m)"
  by (rule om.finite_dom_get)

lemma om_size_keys: "om_size m = length (om_keys m)"
  by (simp add: om_size_def om_keys_def)

lemma om_size_card: "om_size m = card (om_dom m)"
  by (simp add: om_size_keys om.length_keys_of)

lemma om_size_del_less: "om_get m k = Some v \<Longrightarrow> om_size (om_del k m) < om_size m"
  by (simp add: om_size_keys om.length_keys_del)

lemma om_size_put_same: "om_get m k = Some v \<Longrightarrow> om_size (om_put k v' m) = om_size m"
  by (simp add: om_size_card insert_absorb domI)

lemma om_distinct_entries: "distinct (map fst (om_entries m))"
  using om.distinct_keys_of [of m] by (simp add: om_keys_def)

lemma om_set_entries: "(k, v) \<in> set (om_entries m) \<longleftrightarrow> om_get m k = Some v"
  using om_distinct_entries [of m] by (simp add: om_get.rep_eq)

lemma om_eqI:
  assumes "\<And>k. om_get m k = om_get m' k"
  shows "m = m'"
proof -
  have "set (om_entries m) = set (om_entries m')"
    using assms by (auto simp: om_set_entries)
  moreover have "sorted (map fst (om_entries m''))" for m'' :: "('a, 'b) omap"
    using om_sorted_keys [of m''] by (simp add: om_keys_def strict_sorted_iff)
  moreover have "inj_on fst (set (om_entries m))"
    using om_distinct_entries [of m] by (simp add: distinct_map)
  ultimately have "om_entries m = om_entries m'"
    by (intro map_sorted_distinct_set_unique [of fst]) (simp_all add: om_distinct_entries)
  then show ?thesis by (simp add: om_entries_inject)
qed

lemma om_put_same [simp]: "om_get m k = Some v \<Longrightarrow> om_put k v m = m"
  by (rule om_eqI) simp

lemma om_del_absent: "om_get m k = None \<Longrightarrow> om_del k m = m"
  by (rule om_eqI) simp

lemma om_get_fold_del [simp]: "om_get (fold om_del ks m) k = (if k \<in> set ks then None else om_get m k)"
  by (rule om.get_fold_del)

text \<open>Equality of two containers compares their entries in order, keys by the order relation.\<close>

fun al_equal :: "('k::linorder \<times> 'v) list \<Rightarrow> ('k \<times> 'v) list \<Rightarrow> bool" where
  "al_equal [] [] \<longleftrightarrow> True"
| "al_equal ((k, v) # xs) ((k', v') # ys) \<longleftrightarrow> k \<le> k' \<and> k' \<le> k \<and> v = v' \<and> al_equal xs ys"
| "al_equal _ _ \<longleftrightarrow> False"

lemma al_equal_iff: "al_equal xs ys \<longleftrightarrow> xs = ys"
  by (induction xs ys rule: al_equal.induct) auto

instantiation omap :: (linorder, equal) equal
begin

definition equal_omap :: "('a, 'b) omap \<Rightarrow> ('a, 'b) omap \<Rightarrow> bool" where
  "equal_omap m m' \<longleftrightarrow> al_equal (om_entries m) (om_entries m')"

instance
  by standard (simp add: equal_omap_def al_equal_iff om_entries_inject)

end

section \<open>\<open>std::set\<close>\<close>

text \<open>A set is an ordered map to \<open>unit\<close>; iteration is again in ascending order.\<close>

type_synonym 'k oset = "('k, unit) omap"

abbreviation os_empty :: "('k::linorder) oset" where
  "os_empty \<equiv> om_empty"

abbreviation os_insert :: "'k::linorder \<Rightarrow> 'k oset \<Rightarrow> 'k oset" where
  "os_insert k s \<equiv> om_put k () s"

abbreviation os_erase :: "'k::linorder \<Rightarrow> 'k oset \<Rightarrow> 'k oset" where
  "os_erase k s \<equiv> om_del k s"

abbreviation os_mem :: "'k::linorder \<Rightarrow> 'k oset \<Rightarrow> bool" where
  "os_mem k s \<equiv> om_has s k"

definition os_insert_all :: "'k::linorder list \<Rightarrow> 'k oset \<Rightarrow> 'k oset" where
  "os_insert_all ks s = fold (\<lambda>k s. os_insert k s) ks s"

lemma dom_os_insert_all [simp]: "om_dom (os_insert_all ks s) = set ks \<union> om_dom s"
  unfolding os_insert_all_def by (induction ks arbitrary: s) auto

lemma om_keys_empty_iff: "om_keys m = [] \<longleftrightarrow> om_dom m = {}"
  by (metis om_dom_keys set_empty)

end
