(* ===== verification/Channel.thy ===== *)
theory Channel
  imports Containers
begin

text \<open>
  \<^verbatim>\<open>src/src/Channel.cpp\<close>, \<^verbatim>\<open>src/include/Channel.hpp\<close>: the state of one channel.  Members and
  operators are \<open>std::set<int>\<close> of descriptors, the invitation list is a \<open>std::set\<close> of canonical
  nicknames.  The constructor reads the wall clock, which is an argument here.
\<close>

section \<open>State\<close>

record channel =
  ch_name :: string
  ch_members :: "fd oset"
  ch_operators :: "fd oset"
  ch_invited :: "string oset"
  ch_createdAt :: int
  ch_inviteOnly :: bool
  ch_topicProtected :: bool
  ch_hasTopic :: bool
  ch_topic :: string

definition Channel :: "int \<Rightarrow> string \<Rightarrow> channel" where
  "Channel time_now channelName =
     \<lparr>ch_name = channelName, ch_members = os_empty, ch_operators = os_empty,
      ch_invited = os_empty, ch_createdAt = time_now, ch_inviteOnly = False,
      ch_topicProtected = True, ch_hasTopic = False, ch_topic = []\<rparr>"

section \<open>Operations\<close>

definition Channel_empty :: "channel \<Rightarrow> bool" where
  "Channel_empty ch \<longleftrightarrow> om_size (ch_members ch) = 0"

definition memberCount :: "channel \<Rightarrow> nat" where
  "memberCount ch = om_size (ch_members ch)"

definition hasMember :: "channel \<Rightarrow> fd \<Rightarrow> bool" where
  "hasMember ch clientId \<longleftrightarrow> os_mem clientId (ch_members ch)"

definition addMember :: "channel \<Rightarrow> fd \<Rightarrow> bool \<Rightarrow> channel" where
  "addMember ch clientId asOperator =
     (let ch' = ch\<lparr>ch_members := os_insert clientId (ch_members ch)\<rparr> in
      if asOperator then ch'\<lparr>ch_operators := os_insert clientId (ch_operators ch')\<rparr> else ch')"

definition removeMember :: "channel \<Rightarrow> fd \<Rightarrow> channel" where
  "removeMember ch clientId =
     ch\<lparr>ch_members := os_erase clientId (ch_members ch),
        ch_operators := os_erase clientId (ch_operators ch)\<rparr>"

definition members :: "channel \<Rightarrow> fd list" where
  "members ch = om_keys (ch_members ch)"

definition isOperator :: "channel \<Rightarrow> fd \<Rightarrow> bool" where
  "isOperator ch clientId \<longleftrightarrow> os_mem clientId (ch_operators ch)"

definition setOperator :: "channel \<Rightarrow> fd \<Rightarrow> bool \<Rightarrow> channel" where
  "setOperator ch clientId enabled =
     (if \<not> os_mem clientId (ch_members ch) then ch
      else if enabled then ch\<lparr>ch_operators := os_insert clientId (ch_operators ch)\<rparr>
      else ch\<lparr>ch_operators := os_erase clientId (ch_operators ch)\<rparr>)"

definition setInviteOnly :: "channel \<Rightarrow> bool \<Rightarrow> channel" where
  "setInviteOnly ch enabled = ch\<lparr>ch_inviteOnly := enabled\<rparr>"

definition setTopicProtected :: "channel \<Rightarrow> bool \<Rightarrow> channel" where
  "setTopicProtected ch enabled = ch\<lparr>ch_topicProtected := enabled\<rparr>"

definition setTopic :: "channel \<Rightarrow> string \<Rightarrow> channel" where
  "setTopic ch topicValue = ch\<lparr>ch_topic := topicValue, ch_hasTopic := True\<rparr>"

definition clearTopic :: "channel \<Rightarrow> channel" where
  "clearTopic ch = ch\<lparr>ch_topic := [], ch_hasTopic := False\<rparr>"

definition canonicalNick :: "string \<Rightarrow> string" where
  "canonicalNick nickname = map tolower nickname"

definition invite :: "channel \<Rightarrow> string \<Rightarrow> channel" where
  "invite ch nickname = ch\<lparr>ch_invited := os_insert (canonicalNick nickname) (ch_invited ch)\<rparr>"

definition isInvited :: "channel \<Rightarrow> string \<Rightarrow> bool" where
  "isInvited ch nickname \<longleftrightarrow> os_mem (canonicalNick nickname) (ch_invited ch)"

definition clearInvite :: "channel \<Rightarrow> string \<Rightarrow> channel" where
  "clearInvite ch nickname = ch\<lparr>ch_invited := os_erase (canonicalNick nickname) (ch_invited ch)\<rparr>"

definition modeString :: "channel \<Rightarrow> string" where
  "modeString ch =
     ''+'' @ (if ch_inviteOnly ch then ''i'' else []) @ (if ch_topicProtected ch then ''t'' else [])"

definition isValidName :: "string \<Rightarrow> bool" where
  "isValidName name \<longleftrightarrow>
     \<not> (length name < 2 \<or> (name ! 0 \<noteq> CHR ''#'' \<and> name ! 0 \<noteq> CHR ''&'')) \<and>
     list_all (\<lambda>ch. \<not> (isspace ch \<or> ch = CHR '','' \<or> char_code ch = 7)) name"

section \<open>Facts\<close>

interpretation nick_fold: case_fold tolower canonicalNick
  by unfold_locales (simp_all add: canonicalNick_def)

lemmas channel_defs =
  Channel_empty_def memberCount_def hasMember_def addMember_def removeMember_def members_def
  isOperator_def setOperator_def setInviteOnly_def setTopicProtected_def setTopic_def
  clearTopic_def invite_def isInvited_def clearInvite_def

lemma set_members [simp]: "set (members ch) = {m. hasMember ch m}"
  by (auto simp: members_def hasMember_def om_dom_keys)

lemma Channel_empty_iff: "Channel_empty ch \<longleftrightarrow> (\<forall>m. \<not> hasMember ch m)"
  by (simp add: Channel_empty_def hasMember_def om_size_card del: dom_eq_empty_conv) (auto simp: dom_def)

lemma members_fresh [simp]: "\<not> hasMember (Channel t n) m" "\<not> isOperator (Channel t n) m"
  by (simp_all add: hasMember_def isOperator_def Channel_def)

lemma hasMember_ops [simp]:
  "hasMember (addMember ch i b) m \<longleftrightarrow> m = i \<or> hasMember ch m"
  "hasMember (removeMember ch i) m \<longleftrightarrow> m \<noteq> i \<and> hasMember ch m"
  "hasMember (setOperator ch i b) m \<longleftrightarrow> hasMember ch m"
  "hasMember (setInviteOnly ch b) m \<longleftrightarrow> hasMember ch m"
  "hasMember (setTopicProtected ch b) m \<longleftrightarrow> hasMember ch m"
  "hasMember (setTopic ch s) m \<longleftrightarrow> hasMember ch m"
  "hasMember (invite ch n) m \<longleftrightarrow> hasMember ch m"
  "hasMember (clearInvite ch n) m \<longleftrightarrow> hasMember ch m"
  by (auto simp: channel_defs Let_def)

lemma isOperator_ops [simp]:
  "isOperator (addMember ch i b) m \<longleftrightarrow> (m = i \<and> b) \<or> isOperator ch m"
  "isOperator (removeMember ch i) m \<longleftrightarrow> m \<noteq> i \<and> isOperator ch m"
  "isOperator (setOperator ch i b) m \<longleftrightarrow> (if m = i \<and> hasMember ch i then b else isOperator ch m)"
  "isOperator (setInviteOnly ch b) m \<longleftrightarrow> isOperator ch m"
  "isOperator (setTopicProtected ch b) m \<longleftrightarrow> isOperator ch m"
  "isOperator (setTopic ch s) m \<longleftrightarrow> isOperator ch m"
  "isOperator (invite ch n) m \<longleftrightarrow> isOperator ch m"
  "isOperator (clearInvite ch n) m \<longleftrightarrow> isOperator ch m"
  by (auto simp: channel_defs Let_def)

lemma ch_name_ops [simp]:
  "ch_name (Channel t n) = n"
  "ch_name (addMember ch i b) = ch_name ch"
  "ch_name (removeMember ch i) = ch_name ch"
  "ch_name (setOperator ch i b) = ch_name ch"
  "ch_name (setInviteOnly ch b) = ch_name ch"
  "ch_name (setTopicProtected ch b) = ch_name ch"
  "ch_name (setTopic ch s) = ch_name ch"
  "ch_name (invite ch n') = ch_name ch"
  "ch_name (clearInvite ch n') = ch_name ch"
  by (auto simp: channel_defs Let_def Channel_def)

section \<open>The well-formedness of a channel\<close>

text \<open>Operators are members, and the invitation list holds canonical nicknames only.\<close>

definition channel_wf :: "channel \<Rightarrow> bool" where
  "channel_wf ch \<longleftrightarrow>
     (\<forall>m. isOperator ch m \<longrightarrow> hasMember ch m) \<and>
     (\<forall>n. os_mem n (ch_invited ch) \<longrightarrow> canonicalNick n = n)"

lemma channel_wf_ops [simp, intro]:
  "channel_wf (Channel t n)"
  "channel_wf ch \<Longrightarrow> channel_wf (addMember ch i b)"
  "channel_wf ch \<Longrightarrow> channel_wf (removeMember ch i)"
  "channel_wf ch \<Longrightarrow> channel_wf (setOperator ch i b)"
  "channel_wf ch \<Longrightarrow> channel_wf (setInviteOnly ch b)"
  "channel_wf ch \<Longrightarrow> channel_wf (setTopicProtected ch b)"
  "channel_wf ch \<Longrightarrow> channel_wf (setTopic ch s)"
  "channel_wf ch \<Longrightarrow> channel_wf (invite ch n')"
  "channel_wf ch \<Longrightarrow> channel_wf (clearInvite ch n')"
  by (auto simp: channel_wf_def channel_defs Let_def Channel_def nick_fold.fold_string_idem
      split: if_splits)

text \<open>
  Invitations follow IRC's case-insensitive nicknames: inviting \<open>n\<close> invites exactly the
  nicknames with the same canonical form, and clearing an invitation under any spelling removes
  exactly those.
\<close>

lemma invitation_case_insensitive:
  "(isInvited (invite ch n) n' \<longleftrightarrow> canonicalNick n' = canonicalNick n \<or> isInvited ch n') \<and>
   (isInvited (clearInvite ch n) n' \<longleftrightarrow> canonicalNick n' \<noteq> canonicalNick n \<and> isInvited ch n')"
  by (auto simp: isInvited_def invite_def clearInvite_def)

lemma isValidName_nonempty: "isValidName n \<Longrightarrow> n \<noteq> []"
  by (auto simp: isValidName_def)

lemma isValidName_no_space: "isValidName n \<Longrightarrow> CHR '' '' \<notin> set n"
  unfolding isValidName_def list_all_iff using isspace_space by blast

end
