(* ===== verification/Client_Registry.thy ===== *)
theory Client_Registry
  imports Channel
begin

text \<open>
  \<^verbatim>\<open>src/src/ClientRegistry.cpp\<close>: the per-client state and the two indexes that must agree, from
  descriptor to state and from canonical nickname to descriptor.  Time points of the monotonic
  clock are integers counting nanoseconds; the default time point is 0.
\<close>

section \<open>State\<close>

type_synonym monotonic_time = int

record client_state =
  cs_fd :: fd
  cs_passOk :: bool
  cs_hasNick :: bool
  cs_hasUser :: bool
  cs_registered :: bool
  cs_awaitingPong :: bool
  cs_nick :: string
  cs_user :: string
  cs_realname :: string
  cs_host :: string
  cs_pendingPongToken :: string
  cs_connectedAt :: monotonic_time
  cs_lastActivityAt :: monotonic_time
  cs_lastPingAt :: monotonic_time
  cs_commandWindow :: "monotonic_time list"

definition ClientState :: client_state where
  "ClientState =
     \<lparr>cs_fd = -1, cs_passOk = False, cs_hasNick = False, cs_hasUser = False,
      cs_registered = False, cs_awaitingPong = False, cs_nick = [], cs_user = [],
      cs_realname = [], cs_host = ''localhost'', cs_pendingPongToken = [],
      cs_connectedAt = 0, cs_lastActivityAt = 0, cs_lastPingAt = 0, cs_commandWindow = []\<rparr>"

record client_registry =
  cr_states :: "(fd, client_state) omap"
  cr_nicknameIndex :: "(string, fd) omap"

definition ClientRegistry :: client_registry where
  "ClientRegistry = \<lparr>cr_states = om_empty, cr_nicknameIndex = om_empty\<rparr>"

section \<open>Operations\<close>

text \<open>
  \<open>ClientRegistry::state\<close> is \<open>std::map::operator[]\<close>: it default-constructs a missing entry.  The
  reference it returns is written through by the callers, which \<open>registry_set\<close> models.
\<close>

definition registry_state :: "client_registry \<Rightarrow> fd \<Rightarrow> client_state \<times> client_registry" where
  "registry_state reg fd =
     (case om_get (cr_states reg) fd of
        Some client \<Rightarrow> (client, reg)
      | None \<Rightarrow> (ClientState, reg\<lparr>cr_states := om_put fd ClientState (cr_states reg)\<rparr>))"

definition registry_set :: "client_registry \<Rightarrow> fd \<Rightarrow> client_state \<Rightarrow> client_registry" where
  "registry_set reg fd client = reg\<lparr>cr_states := om_put fd client (cr_states reg)\<rparr>"

definition registry_find :: "client_registry \<Rightarrow> fd \<Rightarrow> client_state option" where
  "registry_find reg fd = om_get (cr_states reg) fd"

definition registry_contains :: "client_registry \<Rightarrow> fd \<Rightarrow> bool" where
  "registry_contains reg fd \<longleftrightarrow> om_has (cr_states reg) fd"

definition registry_fds :: "client_registry \<Rightarrow> fd list" where
  "registry_fds reg = om_keys (cr_states reg)"

definition findFdByNickname :: "client_registry \<Rightarrow> string \<Rightarrow> fd" where
  "findFdByNickname reg nickname =
     (case om_get (cr_nicknameIndex reg) (canonicalNick nickname) of None \<Rightarrow> -1 | Some fd \<Rightarrow> fd)"

definition setNickname :: "client_registry \<Rightarrow> fd \<Rightarrow> string \<Rightarrow> client_registry" where
  "setNickname reg fd nickname =
     (let canonical = canonicalNick nickname;
          (client, reg1) = registry_state reg fd;
          index1 = (if cs_nick client \<noteq> [] then om_del (canonicalNick (cs_nick client)) (cr_nicknameIndex reg1)
                    else cr_nicknameIndex reg1);
          client' = client\<lparr>cs_nick := nickname, cs_hasNick := True\<rparr>
      in reg1\<lparr>cr_states := om_put fd client' (cr_states reg1),
              cr_nicknameIndex := om_put canonical fd index1\<rparr>)"

definition registry_erase :: "client_registry \<Rightarrow> fd \<Rightarrow> client_registry" where
  "registry_erase reg fd =
     (case om_get (cr_states reg) fd of
        None \<Rightarrow> reg
      | Some client \<Rightarrow>
          reg\<lparr>cr_nicknameIndex :=
                (if cs_nick client \<noteq> [] then om_del (canonicalNick (cs_nick client)) (cr_nicknameIndex reg)
                 else cr_nicknameIndex reg),
              cr_states := om_del fd (cr_states reg)\<rparr>)"

section \<open>The contract of a nickname directory\<close>

text \<open>
  What the command handlers rely on: a directory from descriptors to nicknames whose lookup by
  nickname is the inverse of that assignment up to letter case, and whose operations change one
  assignment at a time.
\<close>

locale nick_directory =
  fixes inv :: "'r \<Rightarrow> bool"
    and nick_of :: "'r \<Rightarrow> fd \<Rightarrow> string option"
    and lookup_nick :: "'r \<Rightarrow> string \<Rightarrow> fd"
    and rename :: "'r \<Rightarrow> fd \<Rightarrow> string \<Rightarrow> 'r"
    and drop_fd :: "'r \<Rightarrow> fd \<Rightarrow> 'r"
  assumes lookup_iff: "inv r \<Longrightarrow> i \<noteq> -1 \<Longrightarrow>
      lookup_nick r n = i \<longleftrightarrow> (\<exists>m. nick_of r i = Some m \<and> canonicalNick m = canonicalNick n)"
    and real_fd: "inv r \<Longrightarrow> nick_of r i = Some m \<Longrightarrow> i \<noteq> -1"
    and rename_inv: "inv r \<Longrightarrow> n \<noteq> [] \<Longrightarrow> 0 \<le> i \<Longrightarrow> lookup_nick r n \<in> {-1, i} \<Longrightarrow> inv (rename r i n)"
    and rename_nick: "nick_of (rename r i n) = (nick_of r)(i := (if n = [] then None else Some n))"
    and drop_inv: "inv r \<Longrightarrow> inv (drop_fd r i)"
    and drop_nick: "nick_of (drop_fd r i) = (nick_of r)(i := None)"
begin

lemma owner_unique:
  assumes "inv r" "nick_of r i = Some m" "nick_of r j = Some n" "canonicalNick m = canonicalNick n"
  shows "i = j"
  using assms lookup_iff real_fd by metis

lemma lookup_missing: "inv r \<Longrightarrow> (\<And>i m. nick_of r i = Some m \<Longrightarrow> canonicalNick m \<noteq> canonicalNick n) \<Longrightarrow>
    lookup_nick r n = -1"
  using lookup_iff by metis

lemma lookup_after_rename:
  assumes "inv r" "n \<noteq> []" "0 \<le> i" "lookup_nick r n \<in> {-1, i}"
  shows "lookup_nick (rename r i n) n = i"
  using assms rename_inv [OF assms] by (subst lookup_iff) (auto simp: rename_nick)

lemma old_name_released:
  assumes "inv r" "n \<noteq> []" "0 \<le> i" "lookup_nick r n \<in> {-1, i}"
    and "nick_of r i = Some m" and "canonicalNick m \<noteq> canonicalNick n"
  shows "lookup_nick (rename r i n) m = -1"
proof (rule lookup_missing [OF rename_inv [OF assms(1-4)]])
  fix j k assume "nick_of (rename r i n) j = Some k"
  then show "canonicalNick k \<noteq> canonicalNick m"
    using assms(2,5,6) owner_unique [OF assms(1), of j k i m] by (auto simp: rename_nick split: if_splits)
qed

lemma other_names_kept:
  assumes "inv r" "n \<noteq> []" "0 \<le> i" "lookup_nick r n \<in> {-1, i}"
    and "nick_of r j = Some m" and "j \<noteq> i"
  shows "lookup_nick (rename r i n) m = j"
  using assms rename_inv [OF assms(1-4)] real_fd by (subst lookup_iff) (auto simp: rename_nick)

lemma name_released_on_drop:
  assumes "inv r" "nick_of r i = Some m"
  shows "lookup_nick (drop_fd r i) m = -1"
proof (rule lookup_missing [OF drop_inv [OF assms(1)]])
  fix j k assume "nick_of (drop_fd r i) j = Some k"
  then show "canonicalNick k \<noteq> canonicalNick m"
    using owner_unique [OF assms(1), of j k i m] assms(2) by (auto simp: drop_nick split: if_splits)
qed

end

section \<open>The registry implements the directory\<close>

definition registry_nick :: "client_registry \<Rightarrow> fd \<Rightarrow> string option" where
  "registry_nick reg fd =
     (case registry_find reg fd of
        Some client \<Rightarrow> if cs_nick client = [] then None else Some (cs_nick client)
      | None \<Rightarrow> None)"

text \<open>The nickname index is exactly the inverse of the nicknames in the client states.\<close>

definition registry_inv :: "client_registry \<Rightarrow> bool" where
  "registry_inv reg \<longleftrightarrow>
     (\<forall>k i. om_get (cr_nicknameIndex reg) k = Some i \<longleftrightarrow>
            (\<exists>m. registry_nick reg i = Some m \<and> canonicalNick m = k)) \<and>
     (\<forall>i. om_has (cr_states reg) i \<longrightarrow> 0 \<le> i)"

lemma registry_invD:
  assumes "registry_inv reg"
  shows "om_get (cr_nicknameIndex reg) k = Some i \<longleftrightarrow>
           (\<exists>m. registry_nick reg i = Some m \<and> canonicalNick m = k)"
    and "registry_find reg i = Some st \<Longrightarrow> 0 \<le> i"
  using assms by (auto simp: registry_inv_def registry_find_def)

lemma registry_nick_real: "registry_inv reg \<Longrightarrow> registry_nick reg i = Some m \<Longrightarrow> 0 \<le> i"
  by (auto simp: registry_nick_def split: option.splits dest: registry_invD(2))

lemma find_setNickname:
  "registry_find (setNickname reg i n) j =
     (if j = i then Some ((case registry_find reg i of Some st \<Rightarrow> st | None \<Rightarrow> ClientState)
                            \<lparr>cs_nick := n, cs_hasNick := True\<rparr>)
      else registry_find reg j)"
  by (auto simp: setNickname_def registry_state_def registry_find_def Let_def split: option.splits)

lemma find_erase: "registry_find (registry_erase reg i) j = (if j = i then None else registry_find reg j)"
  by (auto simp: registry_erase_def registry_find_def split: option.splits)

lemma find_set: "registry_find (registry_set reg i st) j = (if j = i then Some st else registry_find reg j)"
  by (simp add: registry_find_def registry_set_def)

lemma registry_contains_find: "registry_contains reg i \<longleftrightarrow> registry_find reg i \<noteq> None"
  by (simp add: registry_contains_def registry_find_def)

lemma nick_setNickname:
  "registry_nick (setNickname reg i n) = (registry_nick reg)(i := (if n = [] then None else Some n))"
  by (auto simp: registry_nick_def find_setNickname fun_eq_iff)

lemma nick_erase: "registry_nick (registry_erase reg i) = (registry_nick reg)(i := None)"
  by (auto simp: registry_nick_def find_erase fun_eq_iff)

lemma index_setNickname:
  "om_get (cr_nicknameIndex (setNickname reg i n)) k =
     (if k = canonicalNick n then Some i
      else if \<exists>m. registry_nick reg i = Some m \<and> k = canonicalNick m then None
      else om_get (cr_nicknameIndex reg) k)"
  by (auto simp: setNickname_def registry_state_def registry_nick_def registry_find_def Let_def ClientState_def
      split: option.splits)

lemma index_erase:
  "om_get (cr_nicknameIndex (registry_erase reg i)) k =
     (if \<exists>m. registry_nick reg i = Some m \<and> k = canonicalNick m then None
      else om_get (cr_nicknameIndex reg) k)"
  by (auto simp: registry_erase_def registry_nick_def registry_find_def split: option.splits)

lemma findFdByNickname_iff:
  assumes "registry_inv reg" and "i \<noteq> -1"
  shows "findFdByNickname reg n = i \<longleftrightarrow> (\<exists>m. registry_nick reg i = Some m \<and> canonicalNick m = canonicalNick n)"
  unfolding findFdByNickname_def registry_invD(1) [OF assms(1), symmetric]
  using assms(2) by (auto split: option.split)

lemma setNickname_free:
  assumes "registry_inv reg" and "findFdByNickname reg n \<in> {-1, i}"
    and "registry_nick reg j = Some m" and "canonicalNick m = canonicalNick n"
  shows "j = i"
proof -
  have "0 \<le> j" using assms(1,3) by (rule registry_nick_real)
  then have "findFdByNickname reg n = j"
    using assms(3,4) by (subst findFdByNickname_iff [OF assms(1)]) auto
  with assms(2) \<open>0 \<le> j\<close> show ?thesis by simp
qed

lemma setNickname_inv:
  assumes inv: "registry_inv reg" and "n \<noteq> []" and "0 \<le> i"
    and free: "findFdByNickname reg n \<in> {-1, i}"
  shows "registry_inv (setNickname reg i n)"
  unfolding registry_inv_def
proof (intro conjI allI impI)
  fix k j
  show "om_get (cr_nicknameIndex (setNickname reg i n)) k = Some j \<longleftrightarrow>
        (\<exists>m. registry_nick (setNickname reg i n) j = Some m \<and> canonicalNick m = k)"
  proof (cases "k = canonicalNick n")
    case True
    then show ?thesis
      using assms(2) setNickname_free [OF inv free, of j]
      by (auto simp: index_setNickname nick_setNickname)
  next
    case False
    have clash: "\<not> (\<exists>m. registry_nick reg j = Some m \<and> canonicalNick m = k)"
      if "j \<noteq> i" "\<exists>m. registry_nick reg i = Some m \<and> k = canonicalNick m"
      using that registry_invD(1) [OF inv, of k] by (metis option.inject)
    show ?thesis
      unfolding index_setNickname nick_setNickname
      using False assms(2) clash registry_invD(1) [OF inv, of k i] registry_invD(1) [OF inv, of k j]
      by (cases "j = i") auto
  qed
next
  fix j assume "om_has (cr_states (setNickname reg i n)) j"
  then show "0 \<le> j"
    using find_setNickname [of reg i n j] assms(3) registry_invD(2) [OF inv, of j]
    by (auto simp: registry_find_def split: if_splits)
qed

lemma erase_inv:
  assumes inv: "registry_inv reg"
  shows "registry_inv (registry_erase reg i)"
  unfolding registry_inv_def
proof (intro conjI allI impI)
  fix k j
  show "om_get (cr_nicknameIndex (registry_erase reg i)) k = Some j \<longleftrightarrow>
        (\<exists>m. registry_nick (registry_erase reg i) j = Some m \<and> canonicalNick m = k)"
    using registry_invD(1) [OF inv, of k j] registry_invD(1) [OF inv, of k i]
    by (auto simp: index_erase nick_erase)
next
  fix j assume "om_has (cr_states (registry_erase reg i)) j"
  then show "0 \<le> j"
    using find_erase [of reg i j] registry_invD(2) [OF inv, of j]
    by (auto simp: registry_find_def split: if_splits)
qed

interpretation reg_dir: nick_directory registry_inv registry_nick findFdByNickname setNickname registry_erase
proof
  fix r i n m
  show "registry_inv r \<Longrightarrow> i \<noteq> -1 \<Longrightarrow> findFdByNickname r n = i \<longleftrightarrow>
      (\<exists>m. registry_nick r i = Some m \<and> canonicalNick m = canonicalNick n)"
    by (rule findFdByNickname_iff)
  show "registry_inv r \<Longrightarrow> registry_nick r i = Some m \<Longrightarrow> i \<noteq> -1"
    using registry_nick_real [of r i m] by auto
qed (auto simp: nick_setNickname nick_erase intro: setNickname_inv erase_inv)

text \<open>Writing a client state back without touching its nickname keeps the indexes in step.\<close>

lemma registry_set_nick:
  assumes "registry_find reg i = Some st" and "cs_nick st' = cs_nick st"
  shows "registry_nick (registry_set reg i st') = registry_nick reg"
  using assms by (auto simp: registry_nick_def find_set fun_eq_iff)

lemma registry_set_inv [intro]:
  assumes inv: "registry_inv reg" and "registry_find reg i = Some st" and "cs_nick st' = cs_nick st"
  shows "registry_inv (registry_set reg i st')"
proof -
  have "cr_nicknameIndex (registry_set reg i st') = cr_nicknameIndex reg"
    by (simp add: registry_set_def)
  moreover have "om_has (cr_states (registry_set reg i st')) j \<longleftrightarrow> om_has (cr_states reg) j" for j
    using assms(2) by (auto simp: registry_set_def registry_find_def)
  ultimately show ?thesis
    using inv registry_set_nick [OF assms(2,3)] by (simp add: registry_inv_def)
qed

text \<open>A fresh client has no nickname, so adding it keeps the indexes in step.\<close>

lemma registry_set_fresh_inv [intro]:
  assumes inv: "registry_inv reg" and "registry_find reg i = None" and "0 \<le> i" and "cs_nick st = []"
  shows "registry_inv (registry_set reg i st)"
proof -
  have "registry_nick (registry_set reg i st) = registry_nick reg"
    using assms(2,4) by (auto simp: registry_nick_def find_set fun_eq_iff)
  moreover have "cr_nicknameIndex (registry_set reg i st) = cr_nicknameIndex reg"
    by (simp add: registry_set_def)
  ultimately show ?thesis
    using inv assms(3) by (auto simp: registry_inv_def registry_set_def)
qed

lemma ClientRegistry_inv [simp, intro]: "registry_inv ClientRegistry"
  by (simp add: registry_inv_def registry_nick_def registry_find_def ClientRegistry_def)

section \<open>The index against a linear scan\<close>

text \<open>The obvious reference for a lookup by nickname: search the client states.\<close>

definition scan_nick :: "client_registry \<Rightarrow> string \<Rightarrow> fd" where
  "scan_nick reg nickname =
     (case filter (\<lambda>(fd, client). cs_nick client \<noteq> [] \<and> canonicalNick (cs_nick client) = canonicalNick nickname)
             (om_entries (cr_states reg)) of
        [] \<Rightarrow> -1
      | (fd, client) # rest \<Rightarrow> fd)"

lemma scan_nick_hit:
  assumes "scan_nick reg n = i" and "i \<noteq> -1"
  shows "\<exists>m. registry_nick reg i = Some m \<and> canonicalNick m = canonicalNick n"
proof -
  from assms obtain client rest where
    "filter (\<lambda>(fd, client). cs_nick client \<noteq> [] \<and> canonicalNick (cs_nick client) = canonicalNick n)
       (om_entries (cr_states reg)) = (i, client) # rest"
    by (auto simp: scan_nick_def split: list.splits)
  then have "(i, client) \<in> set (om_entries (cr_states reg)) \<and> cs_nick client \<noteq> [] \<and>
      canonicalNick (cs_nick client) = canonicalNick n"
    by (auto dest!: filter_eq_ConsD)
  then show ?thesis by (auto simp: registry_nick_def registry_find_def om_set_entries)
qed

lemma scan_nick_miss:
  assumes "scan_nick reg n = -1" and "registry_inv reg" and "registry_nick reg i = Some m"
  shows "canonicalNick m \<noteq> canonicalNick n"
proof
  assume eq: "canonicalNick m = canonicalNick n"
  from assms(3) obtain st where st: "om_get (cr_states reg) i = Some st" "cs_nick st = m" "m \<noteq> []"
    by (auto simp: registry_nick_def registry_find_def split: option.splits if_splits)
  let ?hits = "filter (\<lambda>(fd, client). cs_nick client \<noteq> [] \<and> canonicalNick (cs_nick client) = canonicalNick n)
                 (om_entries (cr_states reg))"
  have "(i, st) \<in> set ?hits" using st eq by (auto simp: om_set_entries)
  then obtain j st' rest where hits: "?hits = (j, st') # rest" by (cases ?hits) auto
  then have "j = -1" using assms(1) by (simp add: scan_nick_def)
  moreover have "(j, st') \<in> set ?hits" unfolding hits by simp
  ultimately show False
    using assms(2) by (auto simp: om_set_entries registry_inv_def)
qed

text \<open>
  C33: The nickname index is a correct optimisation: in every consistent registry
  \<open>findFdByNickname\<close> returns what a search through all client states for that nickname (up to
  letter case) would return, including -1 when no client uses it.
\<close>

theorem index_implements_scan:
  assumes "registry_inv reg"
  shows "findFdByNickname reg nickname = scan_nick reg nickname"
proof (cases "scan_nick reg nickname = -1")
  case True
  then have "findFdByNickname reg nickname = -1"
    using scan_nick_miss [OF True assms] by (intro reg_dir.lookup_missing [OF assms]) blast
  with True show ?thesis by simp
next
  case False
  then show ?thesis
    using scan_nick_hit [OF refl False] findFdByNickname_iff [OF assms False] by blast
qed

theorem index_implements_scan_witness:
  "findFdByNickname (setNickname (setNickname (registry_set ClientRegistry 7 ClientState) 7 ''Al'') 7 ''Bob'') ''bOB'' = 7"
proof -
  have "registry_inv (registry_set ClientRegistry 7 ClientState)"
    by (rule registry_set_fresh_inv [OF ClientRegistry_inv])
       (simp_all add: registry_find_def ClientRegistry_def ClientState_def)
  then have "registry_inv (setNickname (registry_set ClientRegistry 7 ClientState) 7 ''Al'')"
    by (rule setNickname_inv) (simp_all, code_simp)
  then have "registry_inv (setNickname (setNickname (registry_set ClientRegistry 7 ClientState) 7 ''Al'') 7 ''Bob'')"
    by (rule setNickname_inv) (simp_all, code_simp)
  from index_implements_scan [OF this] show ?thesis by (rule trans) code_simp
qed

text \<open>
  Renaming leaves no ghost entry: after a client changes to a nickname that is free (or its
  own), the new nickname finds the client, the old one finds nobody (unless it only differs in
  letter case), and every other client is still found under its nickname.
\<close>

lemma rename_no_ghost:
  assumes "registry_inv reg" and "n \<noteq> []" and "0 \<le> i" and "findFdByNickname reg n \<in> {-1, i}"
  shows "registry_inv (setNickname reg i n) \<and>
    findFdByNickname (setNickname reg i n) n = i \<and>
    (\<forall>m. registry_nick reg i = Some m \<and> canonicalNick m \<noteq> canonicalNick n \<longrightarrow>
         findFdByNickname (setNickname reg i n) m = -1) \<and>
    (\<forall>j k. registry_nick reg j = Some k \<and> j \<noteq> i \<longrightarrow> findFdByNickname (setNickname reg i n) k = j)"
  using assms
  by (auto intro: setNickname_inv reg_dir.lookup_after_rename reg_dir.old_name_released
      reg_dir.other_names_kept)

lemma registry_nick_unique:
  assumes "registry_inv reg" and "registry_find reg i = Some st" and "registry_find reg j = Some st'"
    and "cs_nick st \<noteq> []" and "cs_nick st' \<noteq> []" and "canonicalNick (cs_nick st) = canonicalNick (cs_nick st')"
  shows "i = j"
proof -
  have "registry_nick reg i = Some (cs_nick st)" "registry_nick reg j = Some (cs_nick st')"
    using assms(2-5) by (simp_all add: registry_nick_def)
  then have "om_get (cr_nicknameIndex reg) (canonicalNick (cs_nick st)) = Some i"
    "om_get (cr_nicknameIndex reg) (canonicalNick (cs_nick st)) = Some j"
    using registry_invD(1) [OF assms(1)] assms(6) by auto
  then show ?thesis by simp
qed

end
