(* ===== verification/Runtime_Config.thy ===== *)
theory Runtime_Config
  imports Prelude
begin

text \<open>
  \<^verbatim>\<open>src/src/RuntimeConfig.cpp\<close> and the configuration record of \<^verbatim>\<open>src/include/Server.hpp\<close>: the
  command line.  \<open>parseUnsignedDecimal\<close> is a template over the unsigned type; it is polymorphic in the
  word length here, and all its arithmetic wraps as the C++ arithmetic does.  An exception is the
  left summand, carrying its message.
\<close>

section \<open>Configuration records\<close>

record server_config =
  cfg_bindAddress :: string
  cfg_port :: "16 word"
  cfg_backlog :: int
  cfg_eventTimeoutMs :: int
  cfg_maxLineLength :: size_t
  cfg_maxPendingBytes :: size_t
  cfg_maxConnections :: size_t

definition ServerConfig :: server_config where
  "ServerConfig =
     \<lparr>cfg_bindAddress = ''0.0.0.0'', cfg_port = 6667, cfg_backlog = 128, cfg_eventTimeoutMs = 1000,
      cfg_maxLineLength = 512, cfg_maxPendingBytes = 1048576, cfg_maxConnections = 256\<rparr>"

record runtime_config =
  rt_rateLimitCount :: size_t
  rt_rateLimitWindowSeconds :: int
  rt_idleTimeoutSeconds :: int
  rt_pingTimeoutSeconds :: int
  rt_registrationTimeoutSeconds :: int

definition RuntimeConfig :: runtime_config where
  "RuntimeConfig =
     \<lparr>rt_rateLimitCount = 24, rt_rateLimitWindowSeconds = 3, rt_idleTimeoutSeconds = 120,
      rt_pingTimeoutSeconds = 30, rt_registrationTimeoutSeconds = 30\<rparr>"

section \<open>Decimal parsing\<close>

fun parseDigits :: "'a::len word \<Rightarrow> string \<Rightarrow> 'a word \<Rightarrow> string \<Rightarrow> string + 'a word" where
  "parseDigits maximum errorMessage parsed [] = Inr parsed"
| "parseDigits maximum errorMessage parsed (c # value) =
     (if char_code c < char_code (CHR ''0'') \<or> char_code c > char_code (CHR ''9'') then Inl errorMessage
      else let digit = word_of_nat (char_code c - char_code (CHR ''0'')) in
        if parsed > maximum div 10 \<or> (parsed = maximum div 10 \<and> digit > maximum mod 10)
        then Inl errorMessage
        else parseDigits maximum errorMessage (parsed * 10 + digit) value)"

definition parseUnsignedDecimal :: "string \<Rightarrow> 'a::len word \<Rightarrow> string \<Rightarrow> string + 'a word" where
  "parseUnsignedDecimal value maximum errorMessage =
     (if value = [] then Inl errorMessage else parseDigits maximum errorMessage 0 value)"

definition port_error :: string where
  "port_error = ''port must be an integer from 1 to 65535''"

definition parsePort :: "string option \<Rightarrow> string + int" where
  "parsePort value =
     (let text = (case value of None \<Rightarrow> [] | Some s \<Rightarrow> s) in
      case parseUnsignedDecimal text (- 1 :: 16 word) port_error of
        Inl e \<Rightarrow> Inl e
      | Inr port \<Rightarrow> if port = 0 then Inl port_error else Inr (uint port))"

definition parseSize :: "string \<Rightarrow> string \<Rightarrow> string + size_t" where
  "parseSize value name = parseUnsignedDecimal value (- 1 :: size_t) (name @ '' must be an unsigned integer'')"

definition parsePositiveInt :: "string \<Rightarrow> string \<Rightarrow> string + int" where
  "parsePositiveInt value name =
     (case parseUnsignedDecimal value (86400 :: 32 word) (name @ '' must be a positive integer'') of
        Inl e \<Rightarrow> Inl e
      | Inr parsed \<Rightarrow> if parsed = 0 then Inl (name @ '' must be a positive integer'') else Inr (uint parsed))"

definition startsWith :: "string \<Rightarrow> string \<Rightarrow> bool" where
  "startsWith value prefix \<longleftrightarrow> length value \<ge> length prefix \<and> take (length prefix) value = prefix"

section \<open>Options\<close>

type_synonym settings = "runtime_config \<times> server_config"

text \<open>One iteration of the option loop.\<close>

definition parseOption :: "string \<Rightarrow> settings \<Rightarrow> string + settings" where
  "parseOption arg = (\<lambda>(runtime, serverConfig).
     if startsWith arg ''--idle-timeout='' then
       (case parsePositiveInt (drop 15 arg) ''idle timeout'' of Inl e \<Rightarrow> Inl e
        | Inr n \<Rightarrow> Inr (runtime\<lparr>rt_idleTimeoutSeconds := n\<rparr>, serverConfig))
     else if startsWith arg ''--ping-timeout='' then
       (case parsePositiveInt (drop 15 arg) ''ping timeout'' of Inl e \<Rightarrow> Inl e
        | Inr n \<Rightarrow> Inr (runtime\<lparr>rt_pingTimeoutSeconds := n\<rparr>, serverConfig))
     else if startsWith arg ''--registration-timeout='' then
       (case parsePositiveInt (drop 23 arg) ''registration timeout'' of Inl e \<Rightarrow> Inl e
        | Inr n \<Rightarrow> Inr (runtime\<lparr>rt_registrationTimeoutSeconds := n\<rparr>, serverConfig))
     else if startsWith arg ''--rate-limit='' then
       (let value = drop 13 arg in
        case str_find (CHR '':'') value of
          None \<Rightarrow> Inl ''rate limit must use COUNT:SECONDS''
        | Some colon \<Rightarrow>
            (case parseSize (take colon value) ''rate limit count'' of Inl e \<Rightarrow> Inl e
             | Inr count \<Rightarrow>
                 (case parsePositiveInt (drop (colon + 1) value) ''rate limit window'' of Inl e \<Rightarrow> Inl e
                  | Inr window \<Rightarrow> Inr (runtime\<lparr>rt_rateLimitCount := count,
                                              rt_rateLimitWindowSeconds := window\<rparr>, serverConfig))))
     else if startsWith arg ''--max-pending-bytes='' then
       (case parseSize (drop 20 arg) ''max pending bytes'' of Inl e \<Rightarrow> Inl e
        | Inr n \<Rightarrow> Inr (runtime, serverConfig\<lparr>cfg_maxPendingBytes := n\<rparr>))
     else if startsWith arg ''--max-connections='' then
       (case parseSize (drop 18 arg) ''max connections'' of Inl e \<Rightarrow> Inl e
        | Inr n \<Rightarrow> Inr (runtime, serverConfig\<lparr>cfg_maxConnections := n\<rparr>))
     else Inl (''unknown option: '' @ arg))"

fun parseOptionList :: "string list \<Rightarrow> settings \<Rightarrow> string + settings" where
  "parseOptionList [] s = Inr s"
| "parseOptionList (arg # args) s =
     (case parseOption arg s of Inl e \<Rightarrow> Inl e | Inr s' \<Rightarrow> parseOptionList args s')"

definition parseOptions :: "string list \<Rightarrow> server_config \<Rightarrow> string + settings" where
  "parseOptions argv serverConfig = parseOptionList (drop 3 argv) (RuntimeConfig, serverConfig)"

section \<open>The parser against its reference\<close>

lemma isdigit_alt: "isdigit c \<longleftrightarrow> \<not> (char_code c < char_code (CHR ''0'') \<or> char_code c > char_code (CHR ''9''))"
  by (auto simp: isdigit_def)

lemma dec_val_mono: "acc \<le> dec_val acc s"
proof (induction s arbitrary: acc)
  case (Cons c s)
  have "acc \<le> 10 * acc + digit_val c" by simp
  also have "\<dots> \<le> dec_val (10 * acc + digit_val c) s" by (rule Cons.IH)
  finally show ?case by simp
qed simp

text \<open>The guard before the multiplication is exactly ``the next value stays within the maximum''.\<close>

lemma decimal_guard:
  fixes parsed maximum :: "'a::len word"
  assumes len: "4 \<le> LENGTH('a)" and d: "d < 10"
  shows "(parsed > maximum div 10 \<or> (parsed = maximum div 10 \<and> word_of_nat d > maximum mod 10)) \<longleftrightarrow>
         unat maximum < 10 * unat parsed + d"
proof -
  have "(2::nat) ^ 4 \<le> 2 ^ LENGTH('a)" using len by (intro power_increasing) auto
  then have w10: "take_bit LENGTH('a) (10 :: nat) = 10" and wd: "d mod 2 ^ LENGTH('a) = d"
    using d by (simp_all add: take_bit_nat_eq_self)
  have "unat maximum = 10 * (unat maximum div 10) + unat maximum mod 10" by simp
  moreover have "unat maximum mod 10 < 10" by simp
  ultimately have "(unat maximum div 10 < unat parsed \<or>
      (unat parsed = unat maximum div 10 \<and> unat maximum mod 10 < d)) \<longleftrightarrow>
      unat maximum < 10 * unat parsed + d"
    using d by linarith
  then show ?thesis
    by (simp add: word_less_nat_alt word_unat_eq_iff unat_div unat_mod unat_of_nat take_bit_eq_mod [of _ d] w10 wd)
qed

lemma decimal_step:
  fixes parsed maximum :: "'a::len word"
  assumes len: "4 \<le> LENGTH('a)" and d: "d < 10" and fits: "10 * unat parsed + d \<le> unat maximum"
  shows "unat (parsed * 10 + word_of_nat d) = 10 * unat parsed + d"
proof -
  have "(2::nat) ^ 4 \<le> 2 ^ LENGTH('a)" using len by (intro power_increasing) auto
  then have w10: "take_bit LENGTH('a) (10 :: nat) = 10" and wd: "d mod 2 ^ LENGTH('a) = d"
    using d by (simp_all add: take_bit_nat_eq_self)
  have "10 * unat parsed + d < 2 ^ LENGTH('a)"
    using fits unsigned_less [of maximum] by (meson le_less_trans)
  then show ?thesis by (simp add: unat_word_ariths unat_of_nat take_bit_eq_mod [of _ d] w10 wd mult.commute mod_less)
qed

lemma parseDigits_spec:
  fixes parsed maximum :: "'a::len word"
  assumes len: "4 \<le> LENGTH('a)" and "parsed \<le> maximum"
  shows "parseDigits maximum err parsed s =
    (if list_all isdigit s \<and> dec_val (unat parsed) s \<le> unat maximum
     then Inr (word_of_nat (dec_val (unat parsed) s)) else Inl err)"
  using assms(2)
proof (induction s arbitrary: parsed)
  case Nil
  then show ?case by (simp add: word_le_nat_alt)
next
  case (Cons c s)
  let ?d = "char_code c - char_code (CHR ''0'')"
  let ?next = "parsed * 10 + word_of_nat ?d"
  show ?case
  proof (cases "isdigit c")
    case False
    then show ?thesis unfolding isdigit_alt by auto
  next
    case True
    then have d: "?d < 10" and dv: "digit_val c = ?d" by (auto simp: isdigit_def digit_val_def)
    show ?thesis
    proof (cases "unat maximum < 10 * unat parsed + ?d")
      case True
      then have "\<not> dec_val (10 * unat parsed + ?d) s \<le> unat maximum"
        using dec_val_mono [of "10 * unat parsed + ?d" s] by linarith
      with True \<open>isdigit c\<close> show ?thesis
        unfolding parseDigits.simps isdigit_alt Let_def decimal_guard [OF len d] by (simp add: dv)
    next
      case False
      then have nxt: "unat ?next = 10 * unat parsed + ?d" by (intro decimal_step [OF len d, of _ maximum]) simp
      then have "?next \<le> maximum" using False nxt by (simp add: word_le_nat_alt)
      from Cons.IH [OF this] nxt False \<open>isdigit c\<close> show ?thesis
        unfolding parseDigits.simps isdigit_alt Let_def decimal_guard [OF len d] by (simp add: dv)
    qed
  qed
qed

lemma parseUnsignedDecimal_eq:
  fixes maximum :: "'a::len word"
  assumes "4 \<le> LENGTH('a)"
  shows "parseUnsignedDecimal s maximum err =
    (if s \<noteq> [] \<and> list_all isdigit s \<and> dec_val 0 s \<le> unat maximum
     then Inr (word_of_nat (dec_val 0 s)) else Inl err)"
  by (simp add: parseUnsignedDecimal_def parseDigits_spec [OF assms])

lemma unat_max_16: "unat (- 1 :: 16 word) = 65535"
  by (simp add: unsigned_minus_1_eq_mask mask_eq_exp_minus_1)

text \<open>
  C34: \<open>parseUnsignedDecimal\<close> never wraps: at every word width of at least four bits and for every
  maximum it accepts exactly the non-empty digit strings whose value does not exceed the maximum,
  and returns that value; everything else is the error, including values far beyond the width.
\<close>

theorem parseUnsignedDecimal_correct:
  fixes maximum :: "'a::len word"
  assumes "4 \<le> LENGTH('a)"
  shows "parseUnsignedDecimal s maximum err =
    (if s \<noteq> [] \<and> list_all isdigit s \<and> dec_val 0 s \<le> unat maximum
     then Inr (word_of_nat (dec_val 0 s)) else Inl err)"
  using assms by (rule parseUnsignedDecimal_eq)

theorem parseUnsignedDecimal_correct_witness:
  "parseUnsignedDecimal ''65536'' (- 1 :: 16 word) ''bad'' = Inl ''bad'' \<and>
   parseUnsignedDecimal ''65535'' (- 1 :: 16 word) ''bad'' = Inr 65535"
proof -
  have "4 \<le> LENGTH(16)" by simp
  note spec = parseUnsignedDecimal_correct [OF this]
  show ?thesis
    by (simp add: spec isdigit_def digit_val_def unat_max_16)
qed

lemma parsePort_eq:
  "parsePort value =
     (let s = (case value of None \<Rightarrow> [] | Some s \<Rightarrow> s) in
      if s \<noteq> [] \<and> list_all isdigit s \<and> 1 \<le> dec_val 0 s \<and> dec_val 0 s \<le> 65535
      then Inr (int (dec_val 0 s)) else Inl port_error)"
proof -
  have "word_of_nat n = (0 :: 16 word) \<longleftrightarrow> n = 0" if "n \<le> 65535" for n
    using that by (simp add: word_unat_eq_iff unat_of_nat take_bit_nat_eq_self)
  moreover have "uint (word_of_nat n :: 16 word) = int n" if "n \<le> 65535" for n
    using that by (simp add: uint_nat unat_of_nat take_bit_nat_eq_self)
  moreover have "parseUnsignedDecimal s (- 1 :: 16 word) port_error =
      (if s \<noteq> [] \<and> list_all isdigit s \<and> dec_val 0 s \<le> 65535
       then Inr (word_of_nat (dec_val 0 s)) else Inl port_error)" for s
    by (subst parseUnsignedDecimal_eq) (simp_all add: unat_max_16)
  ultimately show ?thesis
    by (simp add: parsePort_def Let_def)
qed

lemma parsePositiveInt_eq:
  "parsePositiveInt s name =
     (if s \<noteq> [] \<and> list_all isdigit s \<and> 1 \<le> dec_val 0 s \<and> dec_val 0 s \<le> 86400
      then Inr (int (dec_val 0 s)) else Inl (name @ '' must be a positive integer''))"
proof -
  have "word_of_nat n = (0 :: 32 word) \<longleftrightarrow> n = 0" if "n \<le> 86400" for n
    using that by (simp add: word_unat_eq_iff unat_of_nat take_bit_nat_eq_self)
  moreover have "uint (word_of_nat n :: 32 word) = int n" if "n \<le> 86400" for n
    using that by (simp add: uint_nat unat_of_nat take_bit_nat_eq_self)
  moreover have "parseUnsignedDecimal s (86400 :: 32 word) err =
      (if s \<noteq> [] \<and> list_all isdigit s \<and> dec_val 0 s \<le> 86400
       then Inr (word_of_nat (dec_val 0 s)) else Inl err)" for err
    by (subst parseUnsignedDecimal_eq) simp_all
  ultimately show ?thesis
    by (simp add: parsePositiveInt_def)
qed

lemma parsePositiveInt_bounds: "parsePositiveInt s name = Inr n \<Longrightarrow> 1 \<le> n \<and> n \<le> 86400"
  by (auto simp: parsePositiveInt_eq split: if_splits)

definition timeouts_ok :: "runtime_config \<Rightarrow> bool" where
  "timeouts_ok r \<longleftrightarrow>
     (\<forall>t \<in> {rt_rateLimitWindowSeconds r, rt_idleTimeoutSeconds r, rt_pingTimeoutSeconds r,
           rt_registrationTimeoutSeconds r}. 1 \<le> t \<and> t \<le> 86400)"

lemma parseOption_timeouts:
  "timeouts_ok (fst s) \<Longrightarrow> parseOption arg s = Inr s' \<Longrightarrow> timeouts_ok (fst s')"
  by (cases s) (auto simp: parseOption_def timeouts_ok_def Let_def
      split: if_splits sum.splits option.splits dest: parsePositiveInt_bounds)

lemma parseOptionList_timeouts:
  "timeouts_ok (fst s) \<Longrightarrow> parseOptionList args s = Inr s' \<Longrightarrow> timeouts_ok (fst s')"
  by (induction args arbitrary: s) (auto split: sum.splits dest: parseOption_timeouts)

text \<open>Only the two limits with an option of their own can differ.\<close>

definition only_limits_differ :: "server_config \<Rightarrow> server_config \<Rightarrow> bool" where
  "only_limits_differ c c' \<longleftrightarrow> (\<exists>p q. c' = c\<lparr>cfg_maxPendingBytes := p, cfg_maxConnections := q\<rparr>)"

lemma only_limits_differ_refl [simp]: "only_limits_differ c c"
  unfolding only_limits_differ_def
  by (rule exI [of _ "cfg_maxPendingBytes c"], rule exI [of _ "cfg_maxConnections c"]) simp

lemma only_limits_differ_trans:
  "only_limits_differ a b \<Longrightarrow> only_limits_differ b c \<Longrightarrow> only_limits_differ a c"
  unfolding only_limits_differ_def by (elim exE) (simp, blast)

lemma only_limits_differ_upd [simp]:
  "only_limits_differ c (c\<lparr>cfg_maxPendingBytes := p\<rparr>)" "only_limits_differ c (c\<lparr>cfg_maxConnections := q\<rparr>)"
  unfolding only_limits_differ_def
  by (rule exI [of _ p], rule exI [of _ "cfg_maxConnections c"], simp)
     (rule exI [of _ "cfg_maxPendingBytes c"], rule exI [of _ q], simp)

lemma parseOption_config:
  "parseOption arg s = Inr s' \<Longrightarrow> only_limits_differ (snd s) (snd s')"
  by (cases s) (auto simp: parseOption_def Let_def split: if_splits sum.splits option.splits)

lemma parseOptionList_config:
  "parseOptionList args s = Inr s' \<Longrightarrow> only_limits_differ (snd s) (snd s')"
  by (induction args arbitrary: s)
     (auto split: sum.splits dest: parseOption_config intro: only_limits_differ_trans)

text \<open>
  C35: Accepted options are in range: whenever \<open>parseOptions\<close> succeeds, every timeout and the rate
  window lie between 1 and 86400 seconds, and apart from the two limits that have an option the
  server configuration is the one passed in.
\<close>

theorem parseOptions_ranges:
  assumes "parseOptions argv cfg = Inr (runtime, cfg')"
  shows "timeouts_ok runtime \<and> only_limits_differ cfg cfg'"
proof -
  have start: "timeouts_ok RuntimeConfig" by (simp add: timeouts_ok_def RuntimeConfig_def)
  from assms have parse: "parseOptionList (drop 3 argv) (RuntimeConfig, cfg) = Inr (runtime, cfg')"
    by (simp add: parseOptions_def)
  show ?thesis
    using parseOptionList_timeouts [OF _ parse] parseOptionList_config [OF parse] start by simp
qed

theorem parseOptions_ranges_witness:
  "timeouts_ok (RuntimeConfig\<lparr>rt_rateLimitCount := 9, rt_rateLimitWindowSeconds := 60\<rparr>)"
proof -
  have "parseOptions [''ircd'', ''6667'', ''pw'', ''--rate-limit=9:60'', ''--max-connections=2''] ServerConfig =
      Inr (RuntimeConfig\<lparr>rt_rateLimitCount := 9, rt_rateLimitWindowSeconds := 60\<rparr>,
           ServerConfig\<lparr>cfg_maxConnections := 2\<rparr>)"
    by code_simp
  from parseOptions_ranges [OF this] show ?thesis by simp
qed

end
