(* ===== verification/Kernel.thy ===== *)
theory Kernel
  imports Prelude
begin

text \<open>
  The boundary to the operating system.  The sources call \<open>recv\<close>, \<open>send\<close>, \<open>accept\<close>, \<open>fcntl\<close>,
  \<open>setsockopt\<close>, \<open>close\<close> and the readiness API of the platform.  What the kernel answers is not
  under \<^verbatim>\<open>src/\<close>, so it is data: each call takes the next answer of a finite script.  A script
  that has run out answers ``would block'' for the I/O calls and success for the configuration
  calls, so every finite run of the program against any kernel is a run of the model for a suitable
  script.  The text of an \<open>errno\<close> value (\<open>strerror\<close>) is a function that the state carries.
\<close>

section \<open>Error numbers\<close>

datatype errno = EINTR | EAGAIN | EWOULDBLOCK | ENOENT | EBADF | Errno int

definition would_block :: "errno \<Rightarrow> bool" where
  "would_block e \<longleftrightarrow> e = EAGAIN \<or> e = EWOULDBLOCK"

lemma would_block_simps [simp]:
  "would_block EAGAIN" "would_block EWOULDBLOCK" "\<not> would_block EINTR" "\<not> would_block (Errno n)"
  by (simp_all add: would_block_def)

text \<open>\<open>what()\<close> of a \<open>std::system_error\<close> of the generic category.\<close>

definition system_error :: "(errno \<Rightarrow> string) \<Rightarrow> string \<Rightarrow> errno \<Rightarrow> string" where
  "system_error strerror what e = what @ '': '' @ strerror e"

section \<open>Answers of the I/O calls\<close>

text \<open>\<open>recv\<close> returns a byte count (the bytes are in the buffer, none at end of stream) or fails.\<close>

datatype recv_answer = Received string | RecvFail errno

text \<open>\<open>send\<close> returns a byte count or fails.\<close>

datatype send_answer = Sent nat | SendFail errno

section \<open>Scripts\<close>

text \<open>Configuration calls (\<open>epoll_ctl\<close>, \<open>kevent\<close>, \<open>fcntl\<close>, \<open>setsockopt\<close>): \<open>None\<close> is success.\<close>

type_synonym call_script = "errno option list"

definition next_call :: "call_script \<Rightarrow> errno option \<times> call_script" where
  "next_call script = (case script of [] \<Rightarrow> (None, []) | r # rest \<Rightarrow> (r, rest))"

end
