(* ===== verification/Connection.thy ===== *)
theory Connection
  imports Kernel
begin

text \<open>
  \<^verbatim>\<open>src/src/Connection.cpp\<close> and \<^verbatim>\<open>src/src/ConnectionLimits.hpp\<close>: one non-blocking socket with its
  line buffer and its bounded output queue.  The limits are \<open>size_t\<close> words and all comparisons with
  them are word comparisons.  \<open>readAvailable\<close> and \<open>flushPending\<close> consume the kernel's answers from
  a script and return what is left of it; \<open>flushPending\<close> also returns the bytes the kernel took.
\<close>

section \<open>Limits\<close>

definition canAppendPending :: "size_t \<Rightarrow> size_t \<Rightarrow> size_t \<Rightarrow> bool" where
  "canAppendPending pending byteCount limit \<longleftrightarrow> pending \<le> limit \<and> byteCount \<le> limit - pending"

section \<open>State\<close>

record connection =
  cn_fd :: fd
  cn_peerAddress :: string
  cn_readBuffer :: string
  cn_writeBuffer :: string
  cn_writeOffset :: nat
  cn_maxLineLength :: size_t
  cn_maxPendingBytes :: size_t
  cn_peerClosed :: bool
  cn_closeRequested :: bool
  cn_closeReason :: string

record read_result =
  rr_lines :: "string list"
  rr_wouldBlock :: bool
  rr_peerClosed :: bool
  rr_hasError :: bool
  rr_error :: string

record write_result =
  wr_finished :: bool
  wr_wouldBlock :: bool
  wr_hasError :: bool
  wr_error :: string

definition ReadResult :: read_result where
  "ReadResult = \<lparr>rr_lines = [], rr_wouldBlock = False, rr_peerClosed = False, rr_hasError = False, rr_error = []\<rparr>"

definition WriteResult :: write_result where
  "WriteResult = \<lparr>wr_finished = True, wr_wouldBlock = False, wr_hasError = False, wr_error = []\<rparr>"

definition Connection :: "fd \<Rightarrow> string \<Rightarrow> size_t \<Rightarrow> size_t \<Rightarrow> connection" where
  "Connection fd peerAddress maxLineLength maxPendingBytes =
     \<lparr>cn_fd = fd, cn_peerAddress = peerAddress, cn_readBuffer = [], cn_writeBuffer = [], cn_writeOffset = 0,
      cn_maxLineLength = (if maxLineLength = 0 then 512 else maxLineLength),
      cn_maxPendingBytes = (if maxPendingBytes = 0 then 1048576 else maxPendingBytes),
      cn_peerClosed = False, cn_closeRequested = False, cn_closeReason = []\<rparr>"

definition wantsWrite :: "connection \<Rightarrow> bool" where
  "wantsWrite c \<longleftrightarrow> cn_writeOffset c < length (cn_writeBuffer c)"

definition pendingBytes :: "connection \<Rightarrow> nat" where
  "pendingBytes c = length (cn_writeBuffer c) - cn_writeOffset c"

definition conn_requestClose :: "connection \<Rightarrow> string \<Rightarrow> connection" where
  "conn_requestClose c reason = c\<lparr>cn_closeRequested := True, cn_closeReason := reason\<rparr>"

section \<open>Output queue\<close>

definition conn_canAppendPending :: "connection \<Rightarrow> nat \<Rightarrow> bool" where
  "conn_canAppendPending c byteCount =
     canAppendPending (to_size (pendingBytes c)) (to_size byteCount) (cn_maxPendingBytes c)"

definition queueRaw :: "connection \<Rightarrow> string \<Rightarrow> bool \<times> connection" where
  "queueRaw c bytes =
     (if \<not> conn_canAppendPending c (length bytes)
      then (False, conn_requestClose c ''outbound queue limit exceeded'')
      else (True, c\<lparr>cn_writeBuffer := cn_writeBuffer c @ bytes\<rparr>))"

text \<open>The loop that moves \<open>end\<close> back over line terminators.\<close>

fun lineEnd :: "string \<Rightarrow> nat \<Rightarrow> nat" where
  "lineEnd line 0 = 0"
| "lineEnd line (Suc n) = (if line ! n = CR \<or> line ! n = LF then lineEnd line n else Suc n)"

definition queueLine :: "connection \<Rightarrow> string \<Rightarrow> bool \<times> connection" where
  "queueLine c line =
     (let end = lineEnd line (length line);
          pending = to_size (pendingBytes c)
      in if \<not> canAppendPending pending (to_size end) (cn_maxPendingBytes c) \<or>
            \<not> canAppendPending (pending + to_size end) 2 (cn_maxPendingBytes c)
         then (False, conn_requestClose c ''outbound queue limit exceeded'')
         else (True, c\<lparr>cn_writeBuffer := cn_writeBuffer c @ take end line @ crlf\<rparr>))"

section \<open>Reading\<close>

function extractLines :: "connection \<Rightarrow> read_result \<Rightarrow> bool \<times> connection \<times> read_result" where
  "extractLines c result =
     (case str_find LF (cn_readBuffer c) of
        None \<Rightarrow>
          if to_size (length (cn_readBuffer c)) > cn_maxLineLength c
          then (False, (conn_requestClose c ''incoming line exceeds maximum length'')\<lparr>cn_readBuffer := []\<rparr>,
                result\<lparr>rr_hasError := True, rr_error := ''incoming line exceeds maximum length''\<rparr>)
          else (True, c, result)
      | Some newline \<Rightarrow>
          if to_size (newline + 1) > cn_maxLineLength c
          then (False, (conn_requestClose c ''incoming line exceeds maximum length'')\<lparr>cn_readBuffer := []\<rparr>,
                result\<lparr>rr_hasError := True, rr_error := ''incoming line exceeds maximum length''\<rparr>)
          else
            (let line = take newline (cn_readBuffer c);
                 line = (if line \<noteq> [] \<and> last line = CR then butlast line else line)
             in extractLines (c\<lparr>cn_readBuffer := drop (newline + 1) (cn_readBuffer c)\<rparr>)
                  (result\<lparr>rr_lines := rr_lines result @ [line]\<rparr>)))"
  by pat_completeness auto
termination
  by (relation "measure (\<lambda>(c, result). length (cn_readBuffer c))") (auto dest: str_find_SomeD(1))

declare extractLines.simps [simp del]

definition errorMessage :: "(errno \<Rightarrow> string) \<Rightarrow> string \<Rightarrow> errno \<Rightarrow> string" where
  "errorMessage strerror operation e = operation @ '': '' @ strerror e"

fun recvLoop ::
  "(errno \<Rightarrow> string) \<Rightarrow> connection \<Rightarrow> read_result \<Rightarrow> recv_answer list \<Rightarrow>
   connection \<times> read_result \<times> recv_answer list"
where
  "recvLoop strerror c result [] = (c, result\<lparr>rr_wouldBlock := True\<rparr>, [])"
| "recvLoop strerror c result (Received buffer # script) =
     (if buffer \<noteq> [] then
        (let (more, c, result) = extractLines (c\<lparr>cn_readBuffer := cn_readBuffer c @ buffer\<rparr>) result in
         if \<not> more then (c, result, script) else recvLoop strerror c result script)
      else (conn_requestClose (c\<lparr>cn_peerClosed := True\<rparr>) ''peer closed connection'',
            result\<lparr>rr_peerClosed := True\<rparr>, script))"
| "recvLoop strerror c result (RecvFail e # script) =
     (if e = EINTR then recvLoop strerror c result script
      else if would_block e then (c, result\<lparr>rr_wouldBlock := True\<rparr>, script)
      else (let msg = errorMessage strerror ''recv'' e in
            (conn_requestClose c msg, result\<lparr>rr_hasError := True, rr_error := msg\<rparr>, script)))"

definition readAvailable ::
  "(errno \<Rightarrow> string) \<Rightarrow> connection \<Rightarrow> recv_answer list \<Rightarrow> connection \<times> read_result \<times> recv_answer list"
where
  "readAvailable strerror c script = recvLoop strerror c ReadResult script"

section \<open>Writing\<close>

fun sendLoop ::
  "(errno \<Rightarrow> string) \<Rightarrow> connection \<Rightarrow> write_result \<Rightarrow> string \<Rightarrow> send_answer list \<Rightarrow>
   connection \<times> write_result \<times> string \<times> send_answer list"
where
  "sendLoop strerror c result taken [] =
     (if wantsWrite c then (c, result\<lparr>wr_wouldBlock := True\<rparr>, taken, []) else (c, result, taken, []))"
| "sendLoop strerror c result taken (answer # script) =
     (if \<not> wantsWrite c then (c, result, taken, answer # script)
      else
        (let size = length (cn_writeBuffer c) - cn_writeOffset c in
         case answer of
           Sent count \<Rightarrow>
             if count > 0 then
               if count > size then
                 (let msg = ''send returned more bytes than requested'' in
                  (conn_requestClose c msg, result\<lparr>wr_hasError := True, wr_error := msg\<rparr>, taken, script))
               else
                 sendLoop strerror (c\<lparr>cn_writeOffset := cn_writeOffset c + count\<rparr>) result
                   (taken @ take count (drop (cn_writeOffset c) (cn_writeBuffer c))) script
             else (c, result\<lparr>wr_wouldBlock := True\<rparr>, taken, script)
         | SendFail e \<Rightarrow>
             if e = EINTR then sendLoop strerror c result taken script
             else if would_block e then (c, result\<lparr>wr_wouldBlock := True\<rparr>, taken, script)
             else (let msg = errorMessage strerror ''send'' e in
                   (conn_requestClose c msg, result\<lparr>wr_hasError := True, wr_error := msg\<rparr>, taken, script))))"

definition flushPending ::
  "(errno \<Rightarrow> string) \<Rightarrow> connection \<Rightarrow> send_answer list \<Rightarrow>
   connection \<times> write_result \<times> string \<times> send_answer list"
where
  "flushPending strerror c script =
     (let (c, result, taken, script) = sendLoop strerror c WriteResult [] script in
      if \<not> wantsWrite c
      then (c\<lparr>cn_writeBuffer := [], cn_writeOffset := 0\<rparr>, result\<lparr>wr_finished := True\<rparr>, taken, script)
      else if cn_writeOffset c > 16384
      then (c\<lparr>cn_writeBuffer := drop (cn_writeOffset c) (cn_writeBuffer c), cn_writeOffset := 0\<rparr>,
            result\<lparr>wr_finished := False\<rparr>, taken, script)
      else (c, result\<lparr>wr_finished := False\<rparr>, taken, script))"

section \<open>The queue limit\<close>

text \<open>
  The queue-limit test is free of the \<open>size_t\<close> overflow trap: for all 64-bit values it holds
  exactly when the mathematical sum of the pending and the new bytes stays within the limit.
\<close>

lemma canAppendPending_iff: "canAppendPending p b l \<longleftrightarrow> unat p + unat b \<le> unat l"
proof (cases "p \<le> l")
  case True
  then show ?thesis
    by (auto simp: canAppendPending_def word_le_nat_alt unat_sub)
next
  case False
  then show ?thesis by (simp add: canAppendPending_def word_le_nat_alt)
qed

text \<open>Bytes queued and not yet taken by the kernel.\<close>

definition pending_text :: "connection \<Rightarrow> string" where
  "pending_text c = drop (cn_writeOffset c) (cn_writeBuffer c)"

definition conn_wf :: "connection \<Rightarrow> bool" where
  "conn_wf c \<longleftrightarrow>
     cn_writeOffset c \<le> length (cn_writeBuffer c) \<and> pendingBytes c \<le> unat (cn_maxPendingBytes c)"

lemma length_pending_text: "length (pending_text c) = pendingBytes c"
  by (simp add: pending_text_def pendingBytes_def)

lemma wantsWrite_iff: "wantsWrite c \<longleftrightarrow> pending_text c \<noteq> []"
  by (auto simp: wantsWrite_def pending_text_def)

lemma conn_wf_Connection [simp]: "conn_wf (Connection i a ml mp)"
  by (simp add: conn_wf_def Connection_def pendingBytes_def)

lemma size_less: "unat (w :: size_t) < 2 ^ 64"
proof -
  have "unat w < 2 ^ LENGTH(64)" by (rule unsigned_less)
  then show ?thesis by simp
qed

lemma lineEnd_rstrip: "n \<le> length line \<Longrightarrow> lineEnd line n = length (rstrip line_end (take n line))"
proof (induction n)
  case (Suc n)
  then have "take (Suc n) line = take n line @ [line ! n]" by (simp add: take_Suc_conv_app_nth)
  with Suc show ?case by auto
qed simp

lemma take_lineEnd: "take (lineEnd line (length line)) line = rstrip line_end line"
proof -
  obtain t where "line = rstrip line_end line @ t" using rstrip_prefix [of line line_end] by blast
  moreover have "lineEnd line (length line) = length (rstrip line_end line)"
    by (simp add: lineEnd_rstrip)
  ultimately show ?thesis by (metis append_eq_conv_conj)
qed

text \<open>What \<open>queueLine\<close> does, with the words read as numbers.\<close>

lemma queueLine_eq:
  assumes wf: "conn_wf c" and len: "length line < 2 ^ 64"
  shows "queueLine c line =
    (if pendingBytes c + length (rstrip line_end line) + 2 \<le> unat (cn_maxPendingBytes c)
     then (True, c\<lparr>cn_writeBuffer := cn_writeBuffer c @ rstrip line_end line @ crlf\<rparr>)
     else (False, conn_requestClose c ''outbound queue limit exceeded''))"
proof -
  let ?e = "lineEnd line (length line)"
  have e: "?e = length (rstrip line_end line)" by (simp add: lineEnd_rstrip)
  then have "?e < 2 ^ 64" using length_rstrip_le [of line_end line] len by simp
  then have ue: "unat (to_size ?e) = ?e" by simp
  have "pendingBytes c < 2 ^ 64"
    using wf size_less [of "cn_maxPendingBytes c"] by (simp add: conn_wf_def)
  then have up: "unat (to_size (pendingBytes c)) = pendingBytes c" by simp
  have "unat (to_size (pendingBytes c) + to_size ?e) = pendingBytes c + ?e"
    if "pendingBytes c + ?e \<le> unat (cn_maxPendingBytes c)"
    using that size_less [of "cn_maxPendingBytes c"] ue up by (subst unat_add_lem [THEN iffD1]) auto
  then show ?thesis
    unfolding queueLine_def Let_def take_lineEnd canAppendPending_iff ue up
    by (auto simp: e)
qed

text \<open>
  C36: A slow reader cannot make the server buffer without bound: queueing a line on a well-formed
  connection keeps the pending bytes within \<open>maxPendingBytes\<close>; either exactly the line without its
  line terminators plus one CRLF is appended to the pending text, or nothing is appended and the
  connection is marked for closing with the limit as the reason.
\<close>

theorem queueLine_bounded:
  assumes "conn_wf c" and "length line < 2 ^ 64" and "queueLine c line = (queued, c')"
  shows "conn_wf c' \<and>
    (if queued then pending_text c' = pending_text c @ rstrip line_end line @ crlf \<and>
                    cn_closeRequested c' = cn_closeRequested c
     else pending_text c' = pending_text c \<and> cn_closeRequested c' \<and>
          cn_closeReason c' = ''outbound queue limit exceeded'')"
  using assms
  by (auto simp: queueLine_eq conn_wf_def pending_text_def pendingBytes_def conn_requestClose_def
      split: if_splits)

theorem queueLine_bounded_witness:
  "queueLine (Connection 5 ''p'' 512 4) (''payload'' @ crlf) =
     (False, conn_requestClose (Connection 5 ''p'' 512 4) ''outbound queue limit exceeded'') \<and>
   conn_wf (conn_requestClose (Connection 5 ''p'' 512 4) ''outbound queue limit exceeded'')"
proof -
  have q: "queueLine (Connection 5 ''p'' 512 4) (''payload'' @ crlf) =
     (False, conn_requestClose (Connection 5 ''p'' 512 4) ''outbound queue limit exceeded'')"
    by code_simp
  with queueLine_bounded [OF _ _ q] show ?thesis by simp
qed

section \<open>The output stream\<close>

lemma sendLoop_stream:
  "cn_writeOffset c \<le> length (cn_writeBuffer c) \<Longrightarrow>
   sendLoop strerror c r out script = (c', r', out', script') \<Longrightarrow>
   (\<exists>t. out' = out @ t \<and> t @ pending_text c' = pending_text c) \<and>
   cn_writeOffset c' \<le> length (cn_writeBuffer c') \<and> cn_maxPendingBytes c' = cn_maxPendingBytes c"
proof (induction strerror c r out script rule: sendLoop.induct)
  case (1 strerror c r out)
  then show ?case by (auto split: if_splits)
next
  case (2 strerror c r out answer script)
  show ?case
  proof (cases "\<exists>n. answer = Sent n \<and> wantsWrite c \<and> 0 < n \<and> n \<le> length (cn_writeBuffer c) - cn_writeOffset c")
    case True
    then obtain n where n: "answer = Sent n" "wantsWrite c" "0 < n" "n \<le> length (cn_writeBuffer c) - cn_writeOffset c"
      by blast
    let ?c = "c\<lparr>cn_writeOffset := cn_writeOffset c + n\<rparr>" and ?t = "take n (pending_text c)"
    have adv: "?t @ pending_text ?c = pending_text c"
      using append_take_drop_id [of n "pending_text c"] by (simp add: pending_text_def add.commute)
    have step: "sendLoop strerror ?c r (out @ ?t) script = (c', r', out', script')"
      using 2 n by (simp add: Let_def pending_text_def)
    have "cn_writeOffset ?c \<le> length (cn_writeBuffer ?c)" using 2 n by simp
    with step obtain t where "out' = (out @ ?t) @ t" "t @ pending_text c' = pending_text ?c"
      "cn_writeOffset c' \<le> length (cn_writeBuffer c')" "cn_maxPendingBytes c' = cn_maxPendingBytes c"
      using "2.IH"(1) [of _ n] n by (auto simp: pending_text_def)
    with adv show ?thesis by (intro conjI exI [of _ "?t @ t"]) auto
  next
    case False
    with 2 show ?thesis
      by (cases answer) (auto simp: Let_def pending_text_def conn_requestClose_def split: if_splits)
  qed
qed

lemma flushPending_stream:
  assumes "conn_wf c" and "flushPending strerror c script = (c', r, out, script')"
  shows "out @ pending_text c' = pending_text c" and "conn_wf c'" and "wr_finished r \<longleftrightarrow> pending_text c' = []"
proof -
  obtain c1 r1 out1 s1 where loop: "sendLoop strerror c WriteResult [] script = (c1, r1, out1, s1)"
    by (metis prod_cases4)
  from assms(1) have off: "cn_writeOffset c \<le> length (cn_writeBuffer c)" by (simp add: conn_wf_def)
  from sendLoop_stream [OF off loop]
  have t: "out1 @ pending_text c1 = pending_text c" "cn_writeOffset c1 \<le> length (cn_writeBuffer c1)"
    "cn_maxPendingBytes c1 = cn_maxPendingBytes c"
    by auto
  have res: "out = out1 \<and> pending_text c' = pending_text c1 \<and> (wr_finished r \<longleftrightarrow> pending_text c1 = []) \<and>
    cn_writeOffset c' \<le> length (cn_writeBuffer c') \<and> cn_maxPendingBytes c' = cn_maxPendingBytes c1"
    using assms(2) t(2) by (auto simp: flushPending_def loop wantsWrite_def pending_text_def split: if_splits)
  with t(1) show "out @ pending_text c' = pending_text c" by simp
  then have "pendingBytes c' \<le> pendingBytes c"
    unfolding length_pending_text [symmetric] by (metis le_add2 length_append)
  with res t(3) assms(1) show "conn_wf c'" by (simp add: conn_wf_def)
  from res show "wr_finished r \<longleftrightarrow> pending_text c' = []" by simp
qed

text \<open>
  C37: The output stream is neither lost, duplicated nor reordered: whatever sequence of partial
  sends, interrupts and errors the kernel answers, the bytes it took followed by the bytes still
  pending are exactly the bytes that were pending before, \<open>finished\<close> is reported iff nothing is
  left, and the queue stays well-formed (also when the buffer is compacted).
\<close>

theorem flushPending_stream_intact:
  assumes "conn_wf c" and "flushPending strerror c script = (c', r, out, script')"
  shows "out @ pending_text c' = pending_text c \<and> conn_wf c' \<and> (wr_finished r \<longleftrightarrow> pending_text c' = [])"
  using flushPending_stream [OF assms] by simp

theorem flushPending_stream_intact_witness:
  "conn_wf ((Connection 5 ''p'' 512 64)\<lparr>cn_writeBuffer := ''abcdef'', cn_writeOffset := 3\<rparr>) \<and>
   ''bc'' @ pending_text ((Connection 5 ''p'' 512 64)\<lparr>cn_writeBuffer := ''abcdef'', cn_writeOffset := 3\<rparr>) = ''bcdef''"
proof -
  let ?c = "(Connection 5 ''p'' 512 64)\<lparr>cn_writeBuffer := ''abcdef'', cn_writeOffset := 1\<rparr>"
  have wf: "conn_wf ?c" by code_simp
  have "flushPending (\<lambda>_. ''err'') ?c [SendFail EINTR, Sent 2, SendFail EAGAIN] =
      (?c\<lparr>cn_writeOffset := 3\<rparr>, \<lparr>wr_finished = False, wr_wouldBlock = True, wr_hasError = False, wr_error = []\<rparr>, ''bc'', [])"
    by code_simp
  from flushPending_stream_intact [OF wf this] show ?thesis
    by (simp add: Connection_def pending_text_def)
qed

section \<open>Line framing\<close>

text \<open>The byte stream of the lines \<open>ls\<close>, and a received line without the CR that ends it.\<close>

definition joined :: "string list \<Rightarrow> string" where
  "joined ls = concat (map (\<lambda>l. l @ [LF]) ls)"

definition strip_cr :: "string \<Rightarrow> string" where
  "strip_cr line = (if line \<noteq> [] \<and> last line = CR then butlast line else line)"

definition lines_fit :: "size_t \<Rightarrow> string list \<Rightarrow> bool" where
  "lines_fit limit ls \<longleftrightarrow> (\<forall>l \<in> set ls. LF \<notin> set l \<and> length l + 1 \<le> unat limit)"

lemma joined_simps [simp]: "joined [] = []" "joined (l # ls) = l @ LF # joined ls"
  "joined (ls @ ls') = joined ls @ joined ls'"
  by (simp_all add: joined_def)

lemma to_size_le: "n \<le> unat w \<Longrightarrow> to_size n \<le> (w :: size_t)"
  using size_less [of w] by (simp add: word_le_nat_alt)

lemma extractLines_none:
  assumes "LF \<notin> set (cn_readBuffer c)" and "length (cn_readBuffer c) \<le> unat (cn_maxLineLength c)"
  shows "extractLines c r = (True, c, r)"
proof -
  have "str_find LF (cn_readBuffer c) = None" using assms(1) by (simp add: str_find_None_iff)
  then show ?thesis using to_size_le [OF assms(2)] by (subst extractLines.simps) (simp add: not_less)
qed

lemma extractLines_line:
  assumes "cn_readBuffer c = l @ LF # s" and "LF \<notin> set l" and "length l + 1 \<le> unat (cn_maxLineLength c)"
  shows "extractLines c r =
    extractLines (c\<lparr>cn_readBuffer := s\<rparr>) (r\<lparr>rr_lines := rr_lines r @ [strip_cr l]\<rparr>)"
proof -
  have "str_find LF (cn_readBuffer c) = Some (length l)" using assms(1,2) by simp
  moreover have "\<not> cn_maxLineLength c < 1 + to_size (length l)"
    using to_size_le [OF assms(3)] by (simp add: not_less)
  ultimately show ?thesis
    using assms(1) by (subst extractLines.simps) (simp add: Let_def strip_cr_def)
qed

lemma extractLines_joined:
  assumes "cn_readBuffer c = joined ls @ rest" and "lines_fit (cn_maxLineLength c) ls"
    and "LF \<notin> set rest" and "length rest \<le> unat (cn_maxLineLength c)"
  shows "extractLines c r =
    (True, c\<lparr>cn_readBuffer := rest\<rparr>, r\<lparr>rr_lines := rr_lines r @ map strip_cr ls\<rparr>)"
  using assms
proof (induction ls arbitrary: c r)
  case Nil
  then show ?case by (simp add: extractLines_none)
next
  case (Cons l ls)
  then show ?case
    by (simp add: extractLines_line [where l = l and s = "joined ls @ rest"] lines_fit_def)
qed

text \<open>Cutting a stream anywhere cuts it inside one line.\<close>

lemma joined_prefix:
  assumes "p @ q = joined ls @ rest" and "LF \<notin> set rest"
  obtains ls1 ls2 tail where "ls = ls1 @ ls2" and "p = joined ls1 @ tail"
    and "tail @ q = joined ls2 @ rest" and "ls2 = [] \<Longrightarrow> LF \<notin> set tail"
    and "\<And>l ls'. ls2 = l # ls' \<Longrightarrow> \<exists>t. l = tail @ t"
  using assms
proof (induction ls arbitrary: p thesis)
  case Nil
  then show ?case using Nil(1) [of "[]" "[]" p] by (metis Un_iff append_Nil joined_simps(1) list.distinct(1) set_append)
next
  case (Cons l ls)
  show ?case
  proof (cases "length p \<le> length l")
    case True
    then obtain t where "l = p @ t"
      using Cons.prems(2) by (auto simp: append_eq_append_conv2)
    then show ?thesis using Cons.prems(1) [of "[]" "l # ls" p] Cons.prems(2) by simp
  next
    case False
    then obtain us where us: "p = l @ us" "us @ q = LF # joined ls @ rest" "us \<noteq> []"
      using Cons.prems(2) by (auto simp: append_eq_append_conv2)
    then obtain p' where p: "p = l @ LF # p'" by (cases us) auto
    with Cons.prems(2) have "p' @ q = joined ls @ rest" by simp
    from Cons.IH [OF _ this Cons.prems(3)] obtain ls1 ls2 tail where "ls = ls1 @ ls2" "p' = joined ls1 @ tail"
      "tail @ q = joined ls2 @ rest" "ls2 = [] \<Longrightarrow> LF \<notin> set tail" "\<And>l ls'. ls2 = l # ls' \<Longrightarrow> \<exists>t. l = tail @ t"
      by blast
    then show ?thesis using Cons.prems(1) [of "l # ls1" ls2 tail] p by simp
  qed
qed

lemma recvLoop_chunks:
  assumes "cn_readBuffer c @ concat chunks = joined ls @ rest" and "\<forall>ch \<in> set chunks. ch \<noteq> []"
    and "lines_fit (cn_maxLineLength c) ls" and "LF \<notin> set rest" and "length rest \<le> unat (cn_maxLineLength c)"
    and "LF \<notin> set (cn_readBuffer c)"
  shows "recvLoop strerror c r (map Received chunks @ script) =
    recvLoop strerror (c\<lparr>cn_readBuffer := rest\<rparr>) (r\<lparr>rr_lines := rr_lines r @ map strip_cr ls\<rparr>) script"
  using assms
proof (induction chunks arbitrary: c r ls)
  case Nil
  then have "ls = []" by (cases ls) (auto dest: arg_cong [where f = set])
  moreover from this Nil have "c\<lparr>cn_readBuffer := rest\<rparr> = c" by simp
  ultimately show ?case by simp
next
  case (Cons ch chunks)
  let ?c = "c\<lparr>cn_readBuffer := cn_readBuffer c @ ch\<rparr>"
  from Cons.prems(1) have "(cn_readBuffer c @ ch) @ concat chunks = joined ls @ rest" by simp
  then obtain ls1 ls2 tail where split: "ls = ls1 @ ls2" "cn_readBuffer c @ ch = joined ls1 @ tail"
    "tail @ concat chunks = joined ls2 @ rest" "ls2 = [] \<Longrightarrow> LF \<notin> set tail"
    "\<And>l ls'. ls2 = l # ls' \<Longrightarrow> \<exists>t. l = tail @ t"
    using Cons.prems(4) by (rule joined_prefix) blast
  have tail: "LF \<notin> set tail \<and> length tail \<le> unat (cn_maxLineLength c)"
  proof (cases ls2)
    case Nil
    then show ?thesis
      using split(3,4) Cons.prems(5) by (metis append_Nil joined_simps(1) le_add1 length_append order_trans)
  next
    case (Cons l ls')
    with split(1,5) Cons.prems(3) show ?thesis by (fastforce simp: lines_fit_def)
  qed
  have "extractLines ?c r = (True, ?c\<lparr>cn_readBuffer := tail\<rparr>, r\<lparr>rr_lines := rr_lines r @ map strip_cr ls1\<rparr>)"
    using split(1,2) tail Cons.prems(3) by (intro extractLines_joined) (auto simp: lines_fit_def)
  then have "recvLoop strerror c r (map Received (ch # chunks) @ script) =
      recvLoop strerror (c\<lparr>cn_readBuffer := tail\<rparr>) (r\<lparr>rr_lines := rr_lines r @ map strip_cr ls1\<rparr>)
        (map Received chunks @ script)"
    using Cons.prems(2) by simp
  also have "\<dots> = recvLoop strerror (c\<lparr>cn_readBuffer := rest\<rparr>)
      (r\<lparr>rr_lines := rr_lines r @ map strip_cr ls\<rparr>) script"
    using Cons.IH [of "c\<lparr>cn_readBuffer := tail\<rparr>" ls2] split(1,3) tail Cons.prems
    by (simp add: lines_fit_def)
  finally show ?case .
qed

text \<open>
  C38: Framing does not depend on how TCP cuts the stream: if the bytes already buffered followed by
  the received chunks spell the lines \<open>ls\<close> and an unterminated rest, all within the line limit, then
  after the chunks the connection has delivered exactly the lines (without CR/LF) in order and holds
  exactly the rest, for every way of cutting the bytes into chunks.
\<close>

theorem framing_chunk_independent:
  assumes "cn_readBuffer c @ concat chunks = joined ls @ rest" and "\<forall>ch \<in> set chunks. ch \<noteq> []"
    and "lines_fit (cn_maxLineLength c) ls" and "LF \<notin> set rest" and "length rest \<le> unat (cn_maxLineLength c)"
    and "LF \<notin> set (cn_readBuffer c)"
  shows "readAvailable strerror c (map Received chunks @ [RecvFail EAGAIN]) =
    (c\<lparr>cn_readBuffer := rest\<rparr>, ReadResult\<lparr>rr_lines := map strip_cr ls, rr_wouldBlock := True\<rparr>, [])"
  using recvLoop_chunks [OF assms, of strerror ReadResult "[RecvFail EAGAIN]"]
  by (simp add: readAvailable_def ReadResult_def)

theorem framing_chunk_independent_witness:
  "readAvailable (\<lambda>_. ''err'') (Connection 5 ''p'' 512 64)
     (map Received [''NI'', ''CK al'' @ [CR], [LF] @ ''USER x'' @ [LF] @ ''PI''] @ [RecvFail EAGAIN]) =
   ((Connection 5 ''p'' 512 64)\<lparr>cn_readBuffer := ''PI''\<rparr>,
    ReadResult\<lparr>rr_lines := [''NICK al'', ''USER x''], rr_wouldBlock := True\<rparr>, [])"
proof -
  let ?c = "Connection 5 ''p'' 512 64"
  let ?chunks = "[''NI'', ''CK al'' @ [CR], [LF] @ ''USER x'' @ [LF] @ ''PI'']"
  have "cn_readBuffer ?c @ concat ?chunks = joined [''NICK al'' @ [CR], ''USER x''] @ ''PI''"
    by (simp add: Connection_def)
  moreover have "\<forall>ch \<in> set ?chunks. ch \<noteq> []" by simp
  moreover have "lines_fit (cn_maxLineLength ?c) [''NICK al'' @ [CR], ''USER x'']"
    by (simp add: lines_fit_def Connection_def)
  moreover have "LF \<notin> set ''PI''" and "length ''PI'' \<le> unat (cn_maxLineLength ?c)" and "LF \<notin> set (cn_readBuffer ?c)"
    by (simp_all add: Connection_def)
  ultimately show ?thesis
    by (rule framing_chunk_independent [THEN trans]) (simp add: strip_cr_def)
qed

section \<open>Bounded input\<close>

lemma extractLines_bounded:
  assumes "length (cn_readBuffer c) < 2 ^ 64" and "extractLines c r = (go, c', r')"
  shows "length (cn_readBuffer c') \<le> unat (cn_maxLineLength c') \<and> cn_maxLineLength c' = cn_maxLineLength c \<and>
    (\<not> go \<longrightarrow> rr_hasError r' \<and> cn_closeRequested c')"
  using assms
proof (induction c r rule: extractLines.induct)
  case (1 c r)
  show ?case
  proof (cases "str_find LF (cn_readBuffer c)")
    case None
    then show ?thesis
      using "1.prems" by (subst (asm) extractLines.simps)
        (auto simp: conn_requestClose_def not_less word_le_nat_alt split: if_splits)
  next
    case (Some n)
    show ?thesis
    proof (cases "to_size (n + 1) > cn_maxLineLength c")
      case True
      with Some "1.prems" show ?thesis
        by (subst (asm) extractLines.simps) (auto simp: conn_requestClose_def)
    next
      case False
      have "length (drop (n + 1) (cn_readBuffer c)) < 2 ^ 64" using "1.prems"(1) by simp
      with "1.IH" [OF Some False refl refl] Some False "1.prems"(2) show ?thesis
        by (subst (asm) (2) extractLines.simps) (auto simp: Let_def)
    qed
  qed
qed

lemma recvLoop_bounded:
  "length (cn_readBuffer c) \<le> unat (cn_maxLineLength c) \<Longrightarrow> unat (cn_maxLineLength c) + 4096 < 2 ^ 64 \<Longrightarrow>
   (\<forall>s. Received s \<in> set script \<longrightarrow> length s \<le> 4096) \<Longrightarrow>
   recvLoop strerror c r script = (c', r', script') \<Longrightarrow>
   length (cn_readBuffer c') \<le> unat (cn_maxLineLength c')"
proof (induction strerror c r script rule: recvLoop.induct)
  case (2 strerror c r buffer script)
  let ?c = "c\<lparr>cn_readBuffer := cn_readBuffer c @ buffer\<rparr>"
  obtain go c1 r1 where ex: "extractLines ?c r = (go, c1, r1)" by (metis prod_cases3)
  have "length (cn_readBuffer ?c) < 2 ^ 64" using 2 by fastforce
  from extractLines_bounded [OF this ex]
  show ?case using 2 ex by (cases "buffer = []"; cases go) (auto simp: conn_requestClose_def)
qed (auto simp: conn_requestClose_def Let_def split: if_splits)

text \<open>
  C39: A client cannot make the server buffer an endless line: after every \<open>readAvailable\<close>, whatever
  the kernel delivers in chunks of at most 4096 bytes, the unfinished line in the read buffer is no
  longer than \<open>maxLineLength\<close>.
\<close>

theorem readBuffer_bounded:
  assumes "length (cn_readBuffer c) \<le> unat (cn_maxLineLength c)" and "unat (cn_maxLineLength c) + 4096 < 2 ^ 64"
    and "\<forall>s. Received s \<in> set script \<longrightarrow> length s \<le> 4096"
    and "readAvailable strerror c script = (c', r, script')"
  shows "length (cn_readBuffer c') \<le> unat (cn_maxLineLength c')"
  using recvLoop_bounded [OF assms(1-3)] assms(4) by (simp add: readAvailable_def)

theorem readBuffer_bounded_witness:
  "length (cn_readBuffer (fst (readAvailable (\<lambda>_. ''err'') (Connection 5 ''p'' 4 64) [Received ''abc'', Received ''def'']))) \<le> 4"
proof -
  obtain c' r s' where run: "readAvailable (\<lambda>_. ''err'') (Connection 5 ''p'' 4 64) [Received ''abc'', Received ''def''] = (c', r, s')"
    by (metis prod_cases3)
  have "\<forall>s. Received s \<in> set [Received ''abc'', Received ''def''] \<longrightarrow> length s \<le> 4096" by auto
  from readBuffer_bounded [OF _ _ this run] have "length (cn_readBuffer c') \<le> unat (cn_maxLineLength c')"
    by (simp add: Connection_def)
  moreover have "cn_maxLineLength (fst (readAvailable (\<lambda>_. ''err'') (Connection 5 ''p'' 4 64) [Received ''abc'', Received ''def''])) = 4"
    by code_simp
  ultimately show ?thesis using run by simp
qed

end
