(* ===== verification/Event_Manager.thy ===== *)
theory Event_Manager
  imports Containers Kernel
begin

unbundle bit_operations_syntax

text \<open>
  \<^verbatim>\<open>src/include/EventManager.hpp\<close>, \<^verbatim>\<open>src/src/EpollEventManager.cpp\<close> and
  \<^verbatim>\<open>src/src/KqueueEventManager.cpp\<close>: the readiness interface and its two backends.  A virtual
  call is a case distinction over the backend.  Each registration call of the kernel takes its
  answer from a script and is appended to a log; replaying the log gives the kernel's view of the
  registrations, against which the cached interest map is verified.
\<close>

section \<open>Interests and events\<close>

type_synonym event_interest = "32 word"

definition NoInterest :: event_interest where "NoInterest = 0"
definition ReadInterest :: event_interest where "ReadInterest = push_bit 0 1"
definition WriteInterest :: event_interest where "WriteInterest = push_bit 1 1"

definition hasInterest :: "event_interest \<Rightarrow> event_interest \<Rightarrow> bool" where
  "hasInterest interests expected \<longleftrightarrow> interests AND expected \<noteq> 0"

record event =
  ev_fd :: fd
  ev_interests :: event_interest
  ev_error :: bool
  ev_hangup :: bool
  ev_errorCode :: "errno option"

section \<open>The registration calls of the kernel\<close>

datatype epoll_op = EPOLL_CTL_ADD | EPOLL_CTL_MOD | EPOLL_CTL_DEL

datatype kfilter = EVFILT_READ | EVFILT_WRITE

datatype kchange = KAddEnable | KDelete

datatype ctl_call =
    EpollCtl epoll_op fd "32 word" "errno option"
  | KeventChange fd kfilter kchange "errno option"

record ctl_kernel =
  ck_script :: call_script
  ck_log :: "ctl_call list"

definition epoll_ctl :: "ctl_kernel \<Rightarrow> epoll_op \<Rightarrow> fd \<Rightarrow> 32 word \<Rightarrow> errno option \<times> ctl_kernel" where
  "epoll_ctl k oper fd events =
     (let (r, rest) = next_call (ck_script k) in
      (r, k\<lparr>ck_script := rest, ck_log := ck_log k @ [EpollCtl oper fd events r]\<rparr>))"

definition kevent_change :: "ctl_kernel \<Rightarrow> fd \<Rightarrow> kfilter \<Rightarrow> kchange \<Rightarrow> errno option \<times> ctl_kernel" where
  "kevent_change k fd flt change =
     (let (r, rest) = next_call (ck_script k) in
      (r, k\<lparr>ck_script := rest, ck_log := ck_log k @ [KeventChange fd flt change r]\<rparr>))"

section \<open>The epoll backend\<close>

type_synonym interest_map = "(fd, event_interest) omap"

text \<open>The result of a registration operation: the text of the exception it throws, if any.\<close>

type_synonym em_result = "string option \<times> interest_map \<times> ctl_kernel"

definition EPOLLIN :: "32 word" where "EPOLLIN = 0x001"
definition EPOLLOUT :: "32 word" where "EPOLLOUT = 0x004"
definition EPOLLERR :: "32 word" where "EPOLLERR = 0x008"
definition EPOLLHUP :: "32 word" where "EPOLLHUP = 0x010"
definition EPOLLRDHUP :: "32 word" where "EPOLLRDHUP = 0x2000"

definition nativeEventsFor :: "event_interest \<Rightarrow> 32 word" where
  "nativeEventsFor interests =
     (let events = EPOLLERR OR EPOLLHUP;
          events = (if hasInterest interests ReadInterest then events OR EPOLLIN OR EPOLLRDHUP else events)
      in if hasInterest interests WriteInterest then events OR EPOLLOUT else events)"

definition epoll_control ::
  "(errno \<Rightarrow> string) \<Rightarrow> ctl_kernel \<Rightarrow> fd \<Rightarrow> epoll_op \<Rightarrow> event_interest \<Rightarrow> string option \<times> ctl_kernel"
where
  "epoll_control strerror k fd operation interests =
     (case epoll_ctl k operation fd (nativeEventsFor interests) of
        (None, k') \<Rightarrow> (None, k')
      | (Some e, k') \<Rightarrow> (Some (system_error strerror ''epoll_ctl'' e), k'))"

definition epoll_removeFd :: "(errno \<Rightarrow> string) \<Rightarrow> interest_map \<Rightarrow> ctl_kernel \<Rightarrow> fd \<Rightarrow> em_result" where
  "epoll_removeFd strerror im k fd =
     (case om_get im fd of
        None \<Rightarrow> (None, im, k)
      | Some _ \<Rightarrow>
          (case epoll_ctl k EPOLL_CTL_DEL fd 0 of
             (None, k') \<Rightarrow> (None, om_del fd im, k')
           | (Some e, k') \<Rightarrow>
               if e \<noteq> ENOENT \<and> e \<noteq> EBADF then (Some (system_error strerror ''epoll_ctl del'' e), im, k')
               else (None, om_del fd im, k')))"

text \<open>The last branch of \<open>addFd\<close>, which \<open>updateFd\<close> reaches through \<open>addFd\<close> for an unknown descriptor.\<close>

definition epoll_addNew :: "(errno \<Rightarrow> string) \<Rightarrow> interest_map \<Rightarrow> ctl_kernel \<Rightarrow> fd \<Rightarrow> event_interest \<Rightarrow> em_result" where
  "epoll_addNew strerror im k fd interests =
     (case epoll_control strerror k fd EPOLL_CTL_ADD interests of
        (Some e, k') \<Rightarrow> (Some e, im, k')
      | (None, k') \<Rightarrow> (None, om_put fd interests im, k'))"

definition epoll_updateFd :: "(errno \<Rightarrow> string) \<Rightarrow> interest_map \<Rightarrow> ctl_kernel \<Rightarrow> fd \<Rightarrow> event_interest \<Rightarrow> em_result" where
  "epoll_updateFd strerror im k fd interests =
     (if interests = NoInterest then epoll_removeFd strerror im k fd
      else
        (case om_get im fd of
           None \<Rightarrow> epoll_addNew strerror im k fd interests
         | Some _ \<Rightarrow>
             (case epoll_control strerror k fd EPOLL_CTL_MOD interests of
                (Some e, k') \<Rightarrow> (Some e, im, k')
              | (None, k') \<Rightarrow> (None, om_put fd interests im, k'))))"

definition epoll_addFd :: "(errno \<Rightarrow> string) \<Rightarrow> interest_map \<Rightarrow> ctl_kernel \<Rightarrow> fd \<Rightarrow> event_interest \<Rightarrow> em_result" where
  "epoll_addFd strerror im k fd interests =
     (if interests = NoInterest then (None, im, k)
      else if om_has im fd then epoll_updateFd strerror im k fd interests
      else epoll_addNew strerror im k fd interests)"

section \<open>The kqueue backend\<close>

definition applyFilterChange ::
  "(errno \<Rightarrow> string) \<Rightarrow> ctl_kernel \<Rightarrow> fd \<Rightarrow> kfilter \<Rightarrow> kchange \<Rightarrow> bool \<Rightarrow> string option \<times> ctl_kernel"
where
  "applyFilterChange strerror k fd flt flags ignoreMissing =
     (case kevent_change k fd flt flags of
        (None, k') \<Rightarrow> (None, k')
      | (Some e, k') \<Rightarrow>
          if ignoreMissing \<and> (e = ENOENT \<or> e = EBADF) then (None, k')
          else (Some (system_error strerror ''kevent update'' e), k'))"

definition updateFilterIfChanged ::
  "(errno \<Rightarrow> string) \<Rightarrow> ctl_kernel \<Rightarrow> fd \<Rightarrow> event_interest \<Rightarrow> event_interest \<Rightarrow> event_interest \<Rightarrow> kfilter \<Rightarrow>
   string option \<times> ctl_kernel"
where
  "updateFilterIfChanged strerror k fd oldInterests newInterests interest flt =
     (let hadInterest = hasInterest oldInterests interest;
          wantsInterest = hasInterest newInterests interest
      in if hadInterest = wantsInterest then (None, k)
         else applyFilterChange strerror k fd flt (if wantsInterest then KAddEnable else KDelete) False)"

definition applyInterestChange ::
  "(errno \<Rightarrow> string) \<Rightarrow> ctl_kernel \<Rightarrow> fd \<Rightarrow> event_interest \<Rightarrow> event_interest \<Rightarrow> string option \<times> ctl_kernel"
where
  "applyInterestChange strerror k fd oldInterests newInterests =
     (case updateFilterIfChanged strerror k fd oldInterests newInterests ReadInterest EVFILT_READ of
        (Some e, k') \<Rightarrow> (Some e, k')
      | (None, k') \<Rightarrow> updateFilterIfChanged strerror k' fd oldInterests newInterests WriteInterest EVFILT_WRITE)"

definition removeFilterIfWatched ::
  "(errno \<Rightarrow> string) \<Rightarrow> ctl_kernel \<Rightarrow> fd \<Rightarrow> event_interest \<Rightarrow> event_interest \<Rightarrow> kfilter \<Rightarrow> string option \<times> ctl_kernel"
where
  "removeFilterIfWatched strerror k fd interests interest flt =
     (if hasInterest interests interest then applyFilterChange strerror k fd flt KDelete True else (None, k))"

definition kqueue_removeFd :: "(errno \<Rightarrow> string) \<Rightarrow> interest_map \<Rightarrow> ctl_kernel \<Rightarrow> fd \<Rightarrow> em_result" where
  "kqueue_removeFd strerror im k fd =
     (case om_get im fd of
        None \<Rightarrow> (None, im, k)
      | Some interests \<Rightarrow>
          (case removeFilterIfWatched strerror k fd interests ReadInterest EVFILT_READ of
             (Some e, k') \<Rightarrow> (Some e, im, k')
           | (None, k') \<Rightarrow>
               (case removeFilterIfWatched strerror k' fd interests WriteInterest EVFILT_WRITE of
                  (Some e, k'') \<Rightarrow> (Some e, im, k'')
                | (None, k'') \<Rightarrow> (None, om_del fd im, k''))))"

definition kqueue_updateFd :: "(errno \<Rightarrow> string) \<Rightarrow> interest_map \<Rightarrow> ctl_kernel \<Rightarrow> fd \<Rightarrow> event_interest \<Rightarrow> em_result" where
  "kqueue_updateFd strerror im k fd interests =
     (let oldInterests = (case om_get im fd of None \<Rightarrow> NoInterest | Some i \<Rightarrow> i) in
      if interests = NoInterest then kqueue_removeFd strerror im k fd
      else
        (case applyInterestChange strerror k fd oldInterests interests of
           (Some e, k') \<Rightarrow> (Some e, im, k')
         | (None, k') \<Rightarrow> (None, om_put fd interests im, k')))"

definition kqueue_addFd :: "(errno \<Rightarrow> string) \<Rightarrow> interest_map \<Rightarrow> ctl_kernel \<Rightarrow> fd \<Rightarrow> event_interest \<Rightarrow> em_result" where
  "kqueue_addFd strerror im k fd interests =
     (if interests = NoInterest then (None, im, k)
      else if om_has im fd then kqueue_updateFd strerror im k fd interests
      else
        (case applyInterestChange strerror k fd NoInterest interests of
           (Some e, k') \<Rightarrow> (Some e, im, k')
         | (None, k') \<Rightarrow> (None, om_put fd interests im, k')))"

section \<open>Dispatch\<close>

datatype event_manager = EpollEventManager interest_map | KqueueEventManager interest_map

primrec em_interests :: "event_manager \<Rightarrow> interest_map" where
  "em_interests (EpollEventManager im) = im"
| "em_interests (KqueueEventManager im) = im"

type_synonym em_outcome = "string option \<times> event_manager \<times> ctl_kernel"

primrec em_addFd :: "(errno \<Rightarrow> string) \<Rightarrow> event_manager \<Rightarrow> ctl_kernel \<Rightarrow> fd \<Rightarrow> event_interest \<Rightarrow> em_outcome" where
  "em_addFd strerror (EpollEventManager im) k fd i =
     (case epoll_addFd strerror im k fd i of (e, im', k') \<Rightarrow> (e, EpollEventManager im', k'))"
| "em_addFd strerror (KqueueEventManager im) k fd i =
     (case kqueue_addFd strerror im k fd i of (e, im', k') \<Rightarrow> (e, KqueueEventManager im', k'))"

primrec em_updateFd :: "(errno \<Rightarrow> string) \<Rightarrow> event_manager \<Rightarrow> ctl_kernel \<Rightarrow> fd \<Rightarrow> event_interest \<Rightarrow> em_outcome" where
  "em_updateFd strerror (EpollEventManager im) k fd i =
     (case epoll_updateFd strerror im k fd i of (e, im', k') \<Rightarrow> (e, EpollEventManager im', k'))"
| "em_updateFd strerror (KqueueEventManager im) k fd i =
     (case kqueue_updateFd strerror im k fd i of (e, im', k') \<Rightarrow> (e, KqueueEventManager im', k'))"

primrec em_removeFd :: "(errno \<Rightarrow> string) \<Rightarrow> event_manager \<Rightarrow> ctl_kernel \<Rightarrow> fd \<Rightarrow> em_outcome" where
  "em_removeFd strerror (EpollEventManager im) k fd =
     (case epoll_removeFd strerror im k fd of (e, im', k') \<Rightarrow> (e, EpollEventManager im', k'))"
| "em_removeFd strerror (KqueueEventManager im) k fd =
     (case kqueue_removeFd strerror im k fd of (e, im', k') \<Rightarrow> (e, KqueueEventManager im', k'))"

section \<open>Waiting\<close>

text \<open>
  What the kernel reports: for epoll the descriptor, the event mask and the answer of the
  \<open>getsockopt(SO_ERROR)\<close> query, which is the pending error of the socket, if any, unless the query itself fails;
  for kqueue the fields of the \<open>kevent\<close> that the source reads.
\<close>

datatype sockopt_answer = SockError "errno option" | SockoptFail errno

definition socketErrorFor :: "sockopt_answer \<Rightarrow> errno option" where
  "socketErrorFor answer = (case answer of SockoptFail e \<Rightarrow> Some e | SockError e \<Rightarrow> e)"

datatype native_event =
    EpollNative fd "32 word" sockopt_answer
  | KqueueNative fd "kfilter option" bool bool "errno option" "errno option"

datatype wait_answer = WaitFail errno | Ready "native_event list"

definition epoll_event :: "fd \<Rightarrow> 32 word \<Rightarrow> sockopt_answer \<Rightarrow> event" where
  "epoll_event fd native sockopt =
     (let error = (native AND EPOLLERR \<noteq> 0);
          hangup = (native AND EPOLLHUP \<noteq> 0) \<or> (native AND EPOLLRDHUP \<noteq> 0);
          interests = (if native AND EPOLLIN \<noteq> 0 then NoInterest OR ReadInterest else NoInterest);
          interests = (if native AND EPOLLOUT \<noteq> 0 then interests OR WriteInterest else interests)
      in \<lparr>ev_fd = fd, ev_interests = interests, ev_error = error, ev_hangup = hangup,
          ev_errorCode = (if error then socketErrorFor sockopt else None)\<rparr>)"

definition kqueue_event :: "fd \<Rightarrow> kfilter option \<Rightarrow> bool \<Rightarrow> bool \<Rightarrow> errno option \<Rightarrow> errno option \<Rightarrow> event" where
  "kqueue_event ident flt ev_err ev_eof data fflags =
     \<lparr>ev_fd = ident,
      ev_interests = (case flt of
                        Some EVFILT_READ \<Rightarrow> NoInterest OR ReadInterest
                      | Some EVFILT_WRITE \<Rightarrow> NoInterest OR WriteInterest
                      | None \<Rightarrow> NoInterest),
      ev_error = ev_err, ev_hangup = ev_eof,
      ev_errorCode = (if ev_err then data else if ev_eof then fflags else None)\<rparr>"

primrec event_of_native :: "native_event \<Rightarrow> event" where
  "event_of_native (EpollNative fd native sockopt) = epoll_event fd native sockopt"
| "event_of_native (KqueueNative fd flt e h data fflags) = kqueue_event fd flt e h data fflags"

text \<open>
  The call that waits, with its timeout: milliseconds for \<open>epoll_wait\<close>, a negative number to wait without limit; seconds and
  nanoseconds for \<open>kevent\<close>, a null pointer to wait without limit.
\<close>

datatype wait_call = EpollWait int | KeventWait "(int \<times> int) option"

definition kevent_timeout :: "int \<Rightarrow> (int \<times> int) option" where
  "kevent_timeout timeoutMs =
     (if timeoutMs \<ge> 0 then Some (timeoutMs div 1000, (timeoutMs mod 1000) * 1000000) else None)"

primrec em_wait_call :: "event_manager \<Rightarrow> int \<Rightarrow> wait_call" where
  "em_wait_call (EpollEventManager _) timeoutMs = EpollWait timeoutMs"
| "em_wait_call (KqueueEventManager _) timeoutMs = KeventWait (kevent_timeout timeoutMs)"

text \<open>How long the call may block, in nanoseconds.\<close>

fun wait_limit :: "wait_call \<Rightarrow> int option" where
  "wait_limit (EpollWait ms) = (if ms < 0 then None else Some (ms * 1000000))"
| "wait_limit (KeventWait None) = None"
| "wait_limit (KeventWait (Some (sec, nsec))) = Some (sec * 1000000000 + nsec)"

definition epoll_wait :: "(errno \<Rightarrow> string) \<Rightarrow> wait_answer \<Rightarrow> string + event list" where
  "epoll_wait strerror answer =
     (case answer of
        WaitFail e \<Rightarrow> if e = EINTR then Inr [] else Inl (system_error strerror ''epoll_wait'' e)
      | Ready natives \<Rightarrow> Inr (map event_of_native natives))"

definition kqueue_wait :: "(errno \<Rightarrow> string) \<Rightarrow> wait_answer \<Rightarrow> string + event list" where
  "kqueue_wait strerror answer =
     (case answer of
        WaitFail e \<Rightarrow> if e = EINTR then Inr [] else Inl (system_error strerror ''kevent wait'' e)
      | Ready natives \<Rightarrow> Inr (map event_of_native natives))"

primrec em_wait :: "(errno \<Rightarrow> string) \<Rightarrow> event_manager \<Rightarrow> wait_answer \<Rightarrow> string + event list" where
  "em_wait strerror (EpollEventManager _) answer = epoll_wait strerror answer"
| "em_wait strerror (KqueueEventManager _) answer = kqueue_wait strerror answer"

text \<open>Both backends ask for the same time, and the nanoseconds of the \<open>timespec\<close> stay below a second.\<close>

lemma wait_limit_call: "0 \<le> ms \<Longrightarrow> wait_limit (em_wait_call em ms) = Some (ms * 1000000)"
proof (cases em)
  case (KqueueEventManager im)
  have "ms div 1000 * 1000 + ms mod 1000 = ms" by simp
  then have "ms div 1000 * 1000000000 + (ms mod 1000) * 1000000 = ms * 1000000" by linarith
  moreover assume "0 \<le> ms"
  ultimately show ?thesis by (simp add: KqueueEventManager kevent_timeout_def)
qed simp

lemma kevent_timeout_normal: "kevent_timeout ms = Some (s, ns) \<Longrightarrow> 0 \<le> s \<and> 0 \<le> ns \<and> ns < 1000000000"
  using pos_mod_bound [of 1000 ms] pos_mod_sign [of 1000 ms]
  by (auto simp: kevent_timeout_def pos_imp_zdiv_nonneg_iff split: if_splits)

section \<open>The contract of an event manager\<close>

text \<open>
  What the server relies on: a successful registration call changes the interest of its own
  descriptor to the requested one, a call that throws changes no interest at all.
\<close>

locale readiness =
  fixes interest_of :: "'m \<Rightarrow> fd \<Rightarrow> event_interest option"
    and add :: "'m \<Rightarrow> 'k \<Rightarrow> fd \<Rightarrow> event_interest \<Rightarrow> string option \<times> 'm \<times> 'k"
    and update :: "'m \<Rightarrow> 'k \<Rightarrow> fd \<Rightarrow> event_interest \<Rightarrow> string option \<times> 'm \<times> 'k"
    and remove :: "'m \<Rightarrow> 'k \<Rightarrow> fd \<Rightarrow> string option \<times> 'm \<times> 'k"
  assumes add_ok: "i \<noteq> NoInterest \<Longrightarrow> add m k f i = (None, m', k') \<Longrightarrow> interest_of m' = (interest_of m)(f \<mapsto> i)"
    and add_throws: "add m k f i = (Some e, m', k') \<Longrightarrow> interest_of m' = interest_of m"
    and update_ok: "i \<noteq> NoInterest \<Longrightarrow> update m k f i = (None, m', k') \<Longrightarrow>
          interest_of m' = (interest_of m)(f \<mapsto> i)"
    and update_throws: "update m k f i = (Some e, m', k') \<Longrightarrow> interest_of m' = interest_of m"
    and remove_ok: "remove m k f = (None, m', k') \<Longrightarrow> interest_of m' = (interest_of m)(f := None)"
    and remove_throws: "remove m k f = (Some e, m', k') \<Longrightarrow> interest_of m' = interest_of m"
begin

lemma others_kept_add:
  "i \<noteq> NoInterest \<Longrightarrow> add m k f i = (r, m', k') \<Longrightarrow> g \<noteq> f \<Longrightarrow> interest_of m' g = interest_of m g"
  by (cases r) (simp_all add: add_ok add_throws)

lemma others_kept_update:
  "i \<noteq> NoInterest \<Longrightarrow> update m k f i = (r, m', k') \<Longrightarrow> g \<noteq> f \<Longrightarrow> interest_of m' g = interest_of m g"
  by (cases r) (simp_all add: update_ok update_throws)

lemma others_kept_remove:
  "remove m k f = (r, m', k') \<Longrightarrow> g \<noteq> f \<Longrightarrow> interest_of m' g = interest_of m g"
  by (cases r) (simp_all add: remove_ok remove_throws)

end

section \<open>Both backends implement the contract\<close>

lemmas epoll_defs = epoll_addFd_def epoll_updateFd_def epoll_removeFd_def epoll_addNew_def epoll_control_def

interpretation epoll_em: readiness om_get "epoll_addFd strerror" "epoll_updateFd strerror" "epoll_removeFd strerror"
  for strerror
  by unfold_locales
     (auto simp: epoll_defs fun_eq_iff split: if_splits option.splits prod.splits)

lemmas kqueue_defs = kqueue_addFd_def kqueue_updateFd_def kqueue_removeFd_def

interpretation kqueue_em: readiness om_get "kqueue_addFd strerror" "kqueue_updateFd strerror" "kqueue_removeFd strerror"
  for strerror
  by unfold_locales
     (auto simp: kqueue_defs Let_def fun_eq_iff split: if_splits option.splits prod.splits)

lemma em_cases:
  obtains (epoll) im where "em = EpollEventManager im" | (kqueue) im where "em = KqueueEventManager im"
  by (cases em)

interpretation emgr: readiness "\<lambda>em. om_get (em_interests em)" "em_addFd strerror" "em_updateFd strerror" "em_removeFd strerror"
  for strerror
proof
  fix i m k f m' k' e
  show "i \<noteq> NoInterest \<Longrightarrow> em_addFd strerror m k f i = (None, m', k') \<Longrightarrow>
      om_get (em_interests m') = (om_get (em_interests m))(f \<mapsto> i)"
    by (cases m) (auto split: prod.splits dest: epoll_em.add_ok kqueue_em.add_ok)
  show "em_addFd strerror m k f i = (Some e, m', k') \<Longrightarrow> om_get (em_interests m') = om_get (em_interests m)"
    by (cases m) (auto split: prod.splits dest: epoll_em.add_throws kqueue_em.add_throws)
  show "i \<noteq> NoInterest \<Longrightarrow> em_updateFd strerror m k f i = (None, m', k') \<Longrightarrow>
      om_get (em_interests m') = (om_get (em_interests m))(f \<mapsto> i)"
    by (cases m) (auto split: prod.splits dest: epoll_em.update_ok kqueue_em.update_ok)
  show "em_updateFd strerror m k f i = (Some e, m', k') \<Longrightarrow> om_get (em_interests m') = om_get (em_interests m)"
    by (cases m) (auto split: prod.splits dest: epoll_em.update_throws kqueue_em.update_throws)
  show "em_removeFd strerror m k f = (None, m', k') \<Longrightarrow>
      om_get (em_interests m') = (om_get (em_interests m))(f := None)"
    by (cases m) (auto split: prod.splits dest: epoll_em.remove_ok kqueue_em.remove_ok)
  show "em_removeFd strerror m k f = (Some e, m', k') \<Longrightarrow> om_get (em_interests m') = om_get (em_interests m)"
    by (cases m) (auto split: prod.splits dest: epoll_em.remove_throws kqueue_em.remove_throws)
qed

section \<open>Interest masks\<close>

lemma interest_values [simp]:
  "ReadInterest \<noteq> NoInterest" "WriteInterest \<noteq> NoInterest" "WriteInterest OR i \<noteq> NoInterest"
  "ReadInterest OR i \<noteq> NoInterest"
  "hasInterest ReadInterest ReadInterest" "hasInterest WriteInterest WriteInterest"
  "\<not> hasInterest ReadInterest WriteInterest" "\<not> hasInterest WriteInterest ReadInterest"
  "hasInterest (ReadInterest OR WriteInterest) ReadInterest"
  "hasInterest (ReadInterest OR WriteInterest) WriteInterest"
  by (simp_all add: ReadInterest_def WriteInterest_def NoInterest_def hasInterest_def or_eq_0_iff)

section \<open>The epoll cache and the kernel\<close>

text \<open>
  The kernel's registrations after a log of calls, following the documented effect of \<open>epoll_ctl\<close>:
  a successful ADD or MOD sets the mask of the descriptor, a DEL that succeeds or finds the
  descriptor unknown or closed leaves it unregistered, any other failure changes nothing.
\<close>

fun epoll_kernel :: "(fd \<rightharpoonup> 32 word) \<Rightarrow> ctl_call list \<Rightarrow> (fd \<rightharpoonup> 32 word)" where
  "epoll_kernel reg [] = reg"
| "epoll_kernel reg (EpollCtl EPOLL_CTL_DEL i m r # log) =
     epoll_kernel (if r \<in> {None, Some ENOENT, Some EBADF} then reg(i := None) else reg) log"
| "epoll_kernel reg (EpollCtl _ i m r # log) =
     epoll_kernel (if r = None then reg(i \<mapsto> m) else reg) log"
| "epoll_kernel reg (KeventChange _ _ _ _ # log) = epoll_kernel reg log"

lemma epoll_kernel_append: "epoll_kernel reg (log @ log') = epoll_kernel (epoll_kernel reg log) log'"
  by (induction reg log rule: epoll_kernel.induct) auto

definition epoll_consistent :: "interest_map \<Rightarrow> ctl_kernel \<Rightarrow> bool" where
  "epoll_consistent im k \<longleftrightarrow>
     (\<forall>i. epoll_kernel Map.empty (ck_log k) i = map_option nativeEventsFor (om_get im i))"

lemmas epoll_replay = epoll_ctl_def epoll_kernel_append Let_def next_call_def

text \<open>
  The epoll backend's cache never diverges from the kernel: every operation, whether it returns or throws and whatever
  the kernel answers, ends with each descriptor registered in the kernel iff it is in the cache, with the event
  mask of the cached interest.
\<close>

lemma epoll_consistent_ops:
  assumes "epoll_consistent im k"
  shows "epoll_removeFd strerror im k i = (r, im', k') \<Longrightarrow> epoll_consistent im' k'"
    and "epoll_updateFd strerror im k i n = (r, im', k') \<Longrightarrow> epoll_consistent im' k'"
    and "epoll_addFd strerror im k i n = (r, im', k') \<Longrightarrow> epoll_consistent im' k'"
  using assms
  by (auto simp: epoll_defs epoll_consistent_def epoll_replay
      split: if_splits option.splits prod.splits list.splits)

section \<open>The kqueue cache and the kernel\<close>

text \<open>The filters the kernel watches after a log of successful or ignorable changes.\<close>

fun kqueue_kernel :: "(fd \<times> kfilter) set \<Rightarrow> ctl_call list \<Rightarrow> (fd \<times> kfilter) set" where
  "kqueue_kernel reg [] = reg"
| "kqueue_kernel reg (KeventChange i flt KAddEnable r # log) =
     kqueue_kernel (if r = None then insert (i, flt) reg else reg) log"
| "kqueue_kernel reg (KeventChange i flt KDelete r # log) =
     kqueue_kernel (if r \<in> {None, Some ENOENT, Some EBADF} then reg - {(i, flt)} else reg) log"
| "kqueue_kernel reg (EpollCtl _ _ _ _ # log) = kqueue_kernel reg log"

lemma kqueue_kernel_append: "kqueue_kernel reg (log @ log') = kqueue_kernel (kqueue_kernel reg log) log'"
  by (induction reg log rule: kqueue_kernel.induct) auto

primrec interest_of_filter :: "kfilter \<Rightarrow> event_interest" where
  "interest_of_filter EVFILT_READ = ReadInterest"
| "interest_of_filter EVFILT_WRITE = WriteInterest"

definition kqueue_consistent :: "interest_map \<Rightarrow> ctl_kernel \<Rightarrow> bool" where
  "kqueue_consistent im k \<longleftrightarrow>
     (\<forall>i flt. (i, flt) \<in> kqueue_kernel {} (ck_log k) \<longleftrightarrow>
              (\<exists>n. om_get im i = Some n \<and> hasInterest n (interest_of_filter flt)))"

lemma applyFilterChange_kernel:
  "applyFilterChange strerror k i flt KAddEnable False = (None, k') \<Longrightarrow>
     kqueue_kernel {} (ck_log k') = insert (i, flt) (kqueue_kernel {} (ck_log k))"
  "applyFilterChange strerror k i flt KDelete ig = (None, k') \<Longrightarrow>
     kqueue_kernel {} (ck_log k') = kqueue_kernel {} (ck_log k) - {(i, flt)}"
  by (auto simp: applyFilterChange_def kevent_change_def kqueue_kernel_append next_call_def Let_def
      split: if_splits option.splits prod.splits list.splits)

lemma updateFilterIfChanged_kernel:
  assumes "updateFilterIfChanged strerror k i old new (interest_of_filter flt) flt = (None, k')"
    and "(i, flt) \<in> kqueue_kernel {} (ck_log k) \<longleftrightarrow> hasInterest old (interest_of_filter flt)"
  shows "x \<in> kqueue_kernel {} (ck_log k') \<longleftrightarrow>
    (if x = (i, flt) then hasInterest new (interest_of_filter flt) else x \<in> kqueue_kernel {} (ck_log k))"
  using assms
  by (auto simp: updateFilterIfChanged_def Let_def applyFilterChange_kernel split: if_splits)

lemma applyInterestChange_kernel:
  assumes change: "applyInterestChange strerror k i old new = (None, k')"
    and start: "\<And>flt. (i, flt) \<in> kqueue_kernel {} (ck_log k) \<longleftrightarrow> hasInterest old (interest_of_filter flt)"
  shows "(j, flt) \<in> kqueue_kernel {} (ck_log k') \<longleftrightarrow>
    (if j = i then hasInterest new (interest_of_filter flt) else (j, flt) \<in> kqueue_kernel {} (ck_log k))"
proof -
  from change obtain k1 where
    r: "updateFilterIfChanged strerror k i old new (interest_of_filter EVFILT_READ) EVFILT_READ = (None, k1)" and
    w: "updateFilterIfChanged strerror k1 i old new (interest_of_filter EVFILT_WRITE) EVFILT_WRITE = (None, k')"
    by (auto simp: applyInterestChange_def split: prod.splits option.splits)
  note r' = updateFilterIfChanged_kernel [OF r start]
  have "(i, EVFILT_WRITE) \<in> kqueue_kernel {} (ck_log k1) \<longleftrightarrow> hasInterest old (interest_of_filter EVFILT_WRITE)"
    by (simp add: r' start)
  note w' = updateFilterIfChanged_kernel [OF w this]
  show ?thesis by (cases flt) (simp_all add: w' r' start)
qed

lemma removeFilterIfWatched_kernel:
  assumes "removeFilterIfWatched strerror k i n (interest_of_filter flt) flt = (None, k')"
    and "(i, flt) \<in> kqueue_kernel {} (ck_log k) \<Longrightarrow> hasInterest n (interest_of_filter flt)"
  shows "kqueue_kernel {} (ck_log k') = kqueue_kernel {} (ck_log k) - {(i, flt)}"
  using assms by (auto simp: removeFilterIfWatched_def applyFilterChange_kernel split: if_splits)

lemma kqueue_removeFd_kernel:
  assumes con: "kqueue_consistent im k" and ok: "kqueue_removeFd strerror im k i = (None, im', k')"
  shows "kqueue_consistent im' k'"
proof (cases "om_get im i")
  case None
  with ok con show ?thesis by (simp add: kqueue_removeFd_def)
next
  case (Some n)
  with ok obtain k1 where im': "im' = om_del i im" and
    r: "removeFilterIfWatched strerror k i n (interest_of_filter EVFILT_READ) EVFILT_READ = (None, k1)" and
    w: "removeFilterIfWatched strerror k1 i n (interest_of_filter EVFILT_WRITE) EVFILT_WRITE = (None, k')"
    by (auto simp: kqueue_removeFd_def split: prod.splits option.splits)
  from con Some have start: "(i, flt) \<in> kqueue_kernel {} (ck_log k) \<Longrightarrow> hasInterest n (interest_of_filter flt)" for flt
    by (auto simp: kqueue_consistent_def)
  have r': "kqueue_kernel {} (ck_log k1) = kqueue_kernel {} (ck_log k) - {(i, EVFILT_READ)}"
    by (rule removeFilterIfWatched_kernel [OF r]) (rule start)
  have "kqueue_kernel {} (ck_log k') = kqueue_kernel {} (ck_log k1) - {(i, EVFILT_WRITE)}"
    by (rule removeFilterIfWatched_kernel [OF w], rule start) (simp add: r')
  then have "kqueue_kernel {} (ck_log k') = kqueue_kernel {} (ck_log k) - {(i, EVFILT_READ)} - {(i, EVFILT_WRITE)}"
    unfolding r' .
  moreover have "(j, flt) \<noteq> (i, EVFILT_READ) \<and> (j, flt) \<noteq> (i, EVFILT_WRITE) \<longleftrightarrow> j \<noteq> i" for j flt
    by (cases flt) auto
  ultimately show ?thesis
    using con by (auto simp: kqueue_consistent_def im')
qed

lemma kqueue_change_kernel:
  assumes con: "kqueue_consistent im k"
    and "applyInterestChange strerror k i (case om_get im i of None \<Rightarrow> NoInterest | Some n \<Rightarrow> n) new = (None, k')"
  shows "kqueue_consistent (om_put i new im) k'"
proof -
  have "(i, flt) \<in> kqueue_kernel {} (ck_log k) \<longleftrightarrow>
      hasInterest (case om_get im i of None \<Rightarrow> NoInterest | Some n \<Rightarrow> n) (interest_of_filter flt)" for flt
    using con by (auto simp: kqueue_consistent_def hasInterest_def NoInterest_def split: option.splits)
  from applyInterestChange_kernel [OF assms(2) this] con show ?thesis
    by (auto simp: kqueue_consistent_def)
qed

text \<open>
  C40: The kqueue backend's cache matches the kernel after every call that does not throw: from a
  consistent state each successful \<open>addFd\<close>, \<open>updateFd\<close> and \<open>removeFd\<close> leaves exactly those filters
  watched in the kernel that the cached interests name, although only the changed filters are
  touched.
\<close>

theorem kqueue_cache_matches_kernel:
  assumes "kqueue_consistent im k"
  shows "(\<forall>im' k'. kqueue_addFd strerror im k i n = (None, im', k') \<longrightarrow> kqueue_consistent im' k') \<and>
    (\<forall>im' k'. kqueue_updateFd strerror im k i n = (None, im', k') \<longrightarrow> kqueue_consistent im' k') \<and>
    (\<forall>im' k'. kqueue_removeFd strerror im k i = (None, im', k') \<longrightarrow> kqueue_consistent im' k')"
proof -
  have up: "kqueue_consistent im' k'" if "kqueue_updateFd strerror im k i n = (None, im', k')" for im' k'
    using that kqueue_removeFd_kernel [OF assms] kqueue_change_kernel [OF assms]
    by (auto simp: kqueue_updateFd_def Let_def split: if_splits prod.splits option.splits)
  moreover have "kqueue_consistent im' k'" if "kqueue_addFd strerror im k i n = (None, im', k')" for im' k'
    using that assms up kqueue_change_kernel [OF assms, of strerror i n]
    by (auto simp: kqueue_addFd_def split: if_splits prod.splits option.splits)
  ultimately show ?thesis using kqueue_removeFd_kernel [OF assms] by blast
qed

theorem kqueue_cache_matches_kernel_witness:
  "kqueue_consistent (om_put 7 WriteInterest om_empty)
     \<lparr>ck_script = [], ck_log = [KeventChange 7 EVFILT_WRITE KAddEnable None]\<rparr>"
proof -
  have start: "kqueue_consistent om_empty \<lparr>ck_script = [None], ck_log = []\<rparr>"
    by (simp add: kqueue_consistent_def)
  have "kqueue_addFd (\<lambda>_. ''e'') om_empty \<lparr>ck_script = [None], ck_log = []\<rparr> 7 WriteInterest =
      (None, om_put 7 WriteInterest om_empty,
       \<lparr>ck_script = [], ck_log = [KeventChange 7 EVFILT_WRITE KAddEnable None]\<rparr>)"
    by code_simp
  with kqueue_cache_matches_kernel [OF start] show ?thesis by blast
qed

end
