(* ===== verification/World.thy ===== *)
theory World
  imports Irc_Message Replies Client_Registry Runtime_Config Connection Event_Manager
begin

text \<open>
  The state of the running program: the fields of \<^verbatim>\<open>irc::Server\<close> (\<^verbatim>\<open>src/include/Server.hpp\<close>), of
  \<^verbatim>\<open>IrcApplication\<close> (\<^verbatim>\<open>src/src/IrcApplication.hpp\<close>), the operating system as the scripts of its
  answers, and the log lines written to \<open>std::cerr\<close>.  The two objects call each other (the server
  through the handlers that \<^verbatim>\<open>main.cpp\<close> installs), so their operations pass one \<open>world\<close> along.
  A member function of the sources becomes a function on worlds of the same name.
\<close>

section \<open>The server object\<close>

record server_metrics =
  acceptedConnections :: size_t
  closedConnections :: size_t
  linesReceived :: size_t
  outboundQueueDrops :: size_t

text \<open>
  The four \<open>std::function\<close> members hold the lambdas of \<^verbatim>\<open>main.cpp\<close> or are empty: a flag each.
  \<open>unordered_map\<close> is a finite map; only \<open>closeAllConnections\<close> iterates over it, in an order that is a
  parameter there.
\<close>

record server =
  srv_config :: server_config
  srv_listenFd :: fd
  srv_eventManager :: "event_manager option"
  srv_connections :: "(fd, connection) omap"
  srv_running :: bool
  srv_stopRequested :: bool
  srv_metrics :: server_metrics
  srv_onConnect :: bool
  srv_onLine :: bool
  srv_onDisconnect :: bool
  srv_onError :: bool

section \<open>The application object\<close>

record app_metrics =
  commandsHandled :: size_t
  messagesRelayed :: size_t
  roomsCreated :: size_t
  rateLimitedClients :: size_t
  idleTimeouts :: size_t
  heartbeatPings :: size_t

record irc_application =
  app_password :: string
  app_runtime :: runtime_config
  app_serverName :: string
  app_clients :: client_registry
  app_channels :: "(string, channel) omap"
  app_metrics :: app_metrics
  app_nextHeartbeatToken :: uint64

section \<open>The operating system\<close>

text \<open>
  A peer address as \<open>accept\<close> fills it in, with the text \<open>inet_ntop\<close> produces for it (\<open>None\<close>: it
  fails); \<open>accept\<close> returns a new descriptor, which is non-negative, or fails.
\<close>

datatype sockaddr = Inet "string option" nat | Inet6 "string option" nat | OtherFamily

datatype accept_answer = Accepted nat sockaddr | AcceptFail errno

text \<open>
  The platform decides at compile time which event manager is built and whether \<open>SO_NOSIGPIPE\<close> exists.
\<close>

datatype platform = Linux | Bsd

text \<open>
  \<open>os_calls\<close> answers the configuration calls (\<open>fcntl\<close>, \<open>setsockopt\<close>, \<open>bind\<close>, \<open>listen\<close>,
  \<open>getsockname\<close>, the creation of the event queue).  The clock: every call of \<open>MonotonicClock::now\<close> advances it by the next entry of \<open>os_ticks\<close>.
  \<open>os_output\<close> records the bytes the kernel took from \<open>send\<close>, \<open>os_closed\<close> the descriptors that were
  closed.
\<close>

record os_state =
  os_strerror :: "errno \<Rightarrow> string"
  os_ctl :: ctl_kernel
  os_recv :: "fd \<Rightarrow> recv_answer list"
  os_send :: "fd \<Rightarrow> send_answer list"
  os_accept :: "accept_answer list"
  os_calls :: call_script
  os_platform :: platform
  os_socket :: "errno + nat"
  os_inet_pton :: "string \<Rightarrow> bool"
  os_boundPort :: "16 word"
  os_wait :: "wait_answer list"
  os_waits :: "wait_call list"
  os_now :: monotonic_time
  os_ticks :: "nat list"
  os_time :: int
  os_output :: "(fd \<times> string) list"
  os_closed :: "fd list"

record world =
  w_server :: server
  w_app :: irc_application
  w_os :: os_state
  w_cerr :: "string list"
  w_fault :: bool

text \<open>\<open>w_fault\<close> is raised where the source would dereference a null pointer.\<close>

abbreviation conns :: "world \<Rightarrow> (fd, connection) omap" where
  "conns w \<equiv> srv_connections (w_server w)"

abbreviation clients :: "world \<Rightarrow> client_registry" where
  "clients w \<equiv> app_clients (w_app w)"

abbreviation channels :: "world \<Rightarrow> (string, channel) omap" where
  "channels w \<equiv> app_channels (w_app w)"

abbreviation strerror_of :: "world \<Rightarrow> errno \<Rightarrow> string" where
  "strerror_of w \<equiv> os_strerror (w_os w)"

abbreviation set_conns :: "(fd, connection) omap \<Rightarrow> world \<Rightarrow> world" where
  "set_conns m w \<equiv> w\<lparr>w_server := (w_server w)\<lparr>srv_connections := m\<rparr>\<rparr>"

abbreviation set_clients :: "client_registry \<Rightarrow> world \<Rightarrow> world" where
  "set_clients r w \<equiv> w\<lparr>w_app := (w_app w)\<lparr>app_clients := r\<rparr>\<rparr>"

abbreviation set_channels :: "(string, channel) omap \<Rightarrow> world \<Rightarrow> world" where
  "set_channels m w \<equiv> w\<lparr>w_app := (w_app w)\<lparr>app_channels := m\<rparr>\<rparr>"

abbreviation count_app :: "(app_metrics \<Rightarrow> app_metrics) \<Rightarrow> world \<Rightarrow> world" where
  "count_app f w \<equiv> w\<lparr>w_app := (w_app w)\<lparr>app_metrics := f (app_metrics (w_app w))\<rparr>\<rparr>"

abbreviation count_server :: "(server_metrics \<Rightarrow> server_metrics) \<Rightarrow> world \<Rightarrow> world" where
  "count_server f w \<equiv> w\<lparr>w_server := (w_server w)\<lparr>srv_metrics := f (srv_metrics (w_server w))\<rparr>\<rparr>"

section \<open>Logging\<close>

definition logSafe :: "string \<Rightarrow> string" where
  "logSafe value = map (\<lambda>ch. if isspace ch then CHR ''_'' else ch) value"

definition logEvent :: "string \<Rightarrow> (string \<times> string) list \<Rightarrow> world \<Rightarrow> world" where
  "logEvent eventName flds w =
     w\<lparr>w_cerr := w_cerr w @
        [''event='' @ eventName @ concat (map (\<lambda>(k, v). '' '' @ k @ ''='' @ logSafe v) flds)]\<rparr>"

definition reportError :: "string \<Rightarrow> world \<Rightarrow> world" where
  "reportError message w =
     (if srv_onError (w_server w) then logEvent ''server_error'' [(''message'', message)] w else w)"

section \<open>Lookups\<close>

definition findConnection :: "world \<Rightarrow> fd \<Rightarrow> connection option" where
  "findConnection w fd = om_get (conns w) fd"

definition connectionCount :: "world \<Rightarrow> nat" where
  "connectionCount w = om_size (conns w)"

definition findNick :: "world \<Rightarrow> string \<Rightarrow> fd" where
  "findNick w nickname = findFdByNickname (clients w) nickname"

definition replyTarget :: "world \<Rightarrow> fd \<Rightarrow> string" where
  "replyTarget w fd =
     (case registry_find (clients w) fd of
        None \<Rightarrow> ''*''
      | Some client \<Rightarrow> if cs_nick client = [] then ''*'' else cs_nick client)"

definition prefixForClient :: "world \<Rightarrow> client_state \<Rightarrow> string" where
  "prefixForClient w client =
     (if cs_nick client = [] then app_serverName (w_app w)
      else hostmask (cs_nick client) (cs_user client) (cs_host client))"

definition prefixFor :: "world \<Rightarrow> fd \<Rightarrow> string" where
  "prefixFor w fd =
     (case registry_find (clients w) fd of
        None \<Rightarrow> app_serverName (w_app w)
      | Some client \<Rightarrow> prefixForClient w client)"

definition eventErrorMessage :: "world \<Rightarrow> event \<Rightarrow> string" where
  "eventErrorMessage w ev =
     (case ev_errorCode ev of
        None \<Rightarrow> ''socket readiness error''
      | Some e \<Rightarrow> ''socket readiness error: '' @ strerror_of w e)"

definition formatPeerAddress :: "sockaddr \<Rightarrow> string" where
  "formatPeerAddress storage =
     (case storage of
        Inet None _ \<Rightarrow> ''unknown''
      | Inet (Some address) port \<Rightarrow> address @ '':'' @ show_nat port
      | Inet6 None _ \<Rightarrow> ''unknown''
      | Inet6 (Some address) port \<Rightarrow> ''['' @ address @ '']:'' @ show_nat port
      | OtherFamily \<Rightarrow> ''unknown'')"

text \<open>\<open>MonotonicClock::now\<close>.\<close>

definition clock_now :: "world \<Rightarrow> monotonic_time \<times> world" where
  "clock_now w =
     (case os_ticks (w_os w) of
        [] \<Rightarrow> (os_now (w_os w), w)
      | t # ts \<Rightarrow> (os_now (w_os w) + int t, w\<lparr>w_os := (w_os w)\<lparr>os_now := os_now (w_os w) + int t, os_ticks := ts\<rparr>\<rparr>))"

text \<open>
  What the operating system does besides the registrations of the event manager leaves the two objects
  alone; the clock does not run backwards.
\<close>

definition undisturbed :: "world \<Rightarrow> world \<Rightarrow> bool" where
  "undisturbed w w' \<longleftrightarrow>
     w_server w' = w_server w \<and> w_app w' = w_app w \<and> w_fault w' = w_fault w \<and>
     ck_log (os_ctl (w_os w')) = ck_log (os_ctl (w_os w)) \<and> os_now (w_os w) \<le> os_now (w_os w') \<and>
     os_waits (w_os w') = os_waits (w_os w)"

lemmas lookup_defs = findConnection_def connectionCount_def

lemma logEvent_frame [simp]:
  "w_server (logEvent n fs w) = w_server w" "w_app (logEvent n fs w) = w_app w" "w_os (logEvent n fs w) = w_os w"
  "w_fault (logEvent n fs w) = w_fault w"
  by (simp_all add: logEvent_def)

lemma reportError_frame [simp]:
  "w_server (reportError m w) = w_server w" "w_app (reportError m w) = w_app w" "w_os (reportError m w) = w_os w"
  "w_fault (reportError m w) = w_fault w"
  by (simp_all add: reportError_def)

lemma clock_now_frame:
  "clock_now w = (t, w') \<Longrightarrow> w_server w' = w_server w \<and> w_app w' = w_app w \<and> w_fault w' = w_fault w \<and>
     w_cerr w' = w_cerr w \<and> os_now (w_os w) \<le> os_now (w_os w') \<and> t = os_now (w_os w')"
  by (auto simp: clock_now_def split: list.splits)

lemma clock_now_undisturbed: "clock_now w = (t, w') \<Longrightarrow> undisturbed w w'"
  by (auto simp: clock_now_def undisturbed_def split: list.splits)

lemma logSafe_single_token: "isspace c \<Longrightarrow> c \<notin> set (logSafe v)"
  by (auto simp: logSafe_def isspace_def)

section \<open>Nicknames\<close>

text \<open>\<open>isValidNickname\<close> of \<^verbatim>\<open>src/src/RegistrationCommands.cpp\<close>.\<close>

definition isValidNickname :: "string \<Rightarrow> bool" where
  "isValidNickname nickname \<longleftrightarrow>
     \<not> (nickname = [] \<or> length nickname > 30) \<and>
     \<not> (isdigit (nickname ! 0) \<or> nickname ! 0 = CHR ''#'' \<or> nickname ! 0 = CHR ''&'' \<or>
        nickname ! 0 = CHR '':'' \<or> nickname ! 0 = CHR ''-'') \<and>
     list_all (\<lambda>ch. \<not> (isspace ch \<or> ch = CHR '','' \<or> ch = CHR ''*'' \<or> ch = CHR ''?'' \<or>
                        ch = CHR ''!'' \<or> ch = CHR ''@'')) nickname"

lemma isValidNickname_nonempty: "isValidNickname n \<Longrightarrow> n \<noteq> []"
  by (simp add: isValidNickname_def)

end
