(* ===== verification/Relay.thy ===== *)
theory Relay
  imports World
begin

text \<open>
  The transport operations that the server and the application share: \<open>Server::sendTo\<close>,
  \<open>refreshInterest\<close> and \<open>disconnect\<close> (\<^verbatim>\<open>src/src/Server.cpp\<close>), \<open>IrcApplication::onDisconnect\<close>
  (\<^verbatim>\<open>src/src/IrcApplication.cpp\<close>) and \<open>removeClientState\<close> (\<^verbatim>\<open>src/src/ApplicationSupport.cpp\<close>).  They
  are mutually recursive in the sources: a failed send closes the connection, closing it announces
  the QUIT to the peers, and each of these sends may fail again.  The cascade ends because every
  round removes a connection.
\<close>

section \<open>Primitive steps\<close>

text \<open>\<open>eventManager_->updateFd\<close> and \<open>removeFd\<close>: the exception text, if any, and the new world.\<close>

definition set_manager :: "event_manager \<Rightarrow> ctl_kernel \<Rightarrow> world \<Rightarrow> world" where
  "set_manager em k w =
     w\<lparr>w_server := (w_server w)\<lparr>srv_eventManager := Some em\<rparr>, w_os := (w_os w)\<lparr>os_ctl := k\<rparr>\<rparr>"

definition updateFd_call :: "event_manager \<Rightarrow> fd \<Rightarrow> event_interest \<Rightarrow> world \<Rightarrow> string option \<times> world" where
  "updateFd_call em fd interests w =
     (case em_updateFd (strerror_of w) em (os_ctl (w_os w)) fd interests of
        (r, em', k') \<Rightarrow> (r, set_manager em' k' w))"

definition removeFd_call :: "event_manager \<Rightarrow> fd \<Rightarrow> world \<Rightarrow> string option \<times> world" where
  "removeFd_call em fd w =
     (case em_removeFd (strerror_of w) em (os_ctl (w_os w)) fd of
        (r, em', k') \<Rightarrow> (r, set_manager em' k' w))"

text \<open>The effect of \<open>queueLine\<close> or \<open>queueRaw\<close> on the server: a refused line is counted as a drop.\<close>

definition store_queued :: "fd \<Rightarrow> bool \<times> connection \<Rightarrow> world \<Rightarrow> world" where
  "store_queued fd result w =
     (let w1 = set_conns (om_put fd (snd result) (conns w)) w in
      if \<not> fst result then count_server (\<lambda>m. m\<lparr>outboundQueueDrops := outboundQueueDrops m + 1\<rparr>) w1 else w1)"

text \<open>The part of \<open>disconnect\<close> before the handler runs.\<close>

definition detach :: "fd \<Rightarrow> world \<Rightarrow> world" where
  "detach fd w =
     (let w1 = (case srv_eventManager (w_server w) of
                  None \<Rightarrow> w
                | Some em \<Rightarrow>
                    (case removeFd_call em fd w of
                       (None, w') \<Rightarrow> w'
                     | (Some what, w') \<Rightarrow> reportError what w'));
          w2 = set_conns (om_del fd (conns w1)) w1
      in count_server (\<lambda>m. m\<lparr>closedConnections := closedConnections m + 1\<rparr>) w2)"

text \<open>The destructor of \<open>Connection\<close>: \<open>closeFd\<close>.\<close>

definition closeFd :: "connection \<Rightarrow> world \<Rightarrow> world" where
  "closeFd c w =
     (if cn_fd c \<noteq> -1 then w\<lparr>w_os := (w_os w)\<lparr>os_closed := os_closed (w_os w) @ [cn_fd c]\<rparr>\<rparr> else w)"

text \<open>The interest that \<open>refreshInterest\<close> asks for.\<close>

definition desired_interest :: "connection \<Rightarrow> event_interest" where
  "desired_interest c =
     (let interests = (if cn_closeRequested c then WriteInterest else ReadInterest) in
      if wantsWrite c then interests OR WriteInterest else interests)"

text \<open>The peers of a client: everybody who shares a channel with it, each once, in ascending order.\<close>

definition channel_peers :: "(string, channel) omap \<Rightarrow> fd \<Rightarrow> fd oset" where
  "channel_peers chans fd =
     fold (\<lambda>(name, ch) peers.
             if hasMember ch fd then os_insert_all (filter (\<lambda>m. m \<noteq> fd) (members ch)) peers else peers)
       (om_entries chans) os_empty"

text \<open>The second and third phase of \<open>removeClientState\<close>: memberships, emptied channels, registry.\<close>

definition emptied_channels :: "fd \<Rightarrow> (string, channel) omap \<Rightarrow> string list" where
  "emptied_channels fd chans =
     map fst (filter (\<lambda>(name, ch). hasMember ch fd \<and> Channel_empty (removeMember ch fd)) (om_entries chans))"

definition purge :: "fd \<Rightarrow> world \<Rightarrow> world" where
  "purge fd w =
     (let chans = om_map (\<lambda>name ch. if hasMember ch fd then removeMember ch fd else ch) (channels w);
          w1 = set_channels (fold om_del (emptied_channels fd (channels w)) chans) w
      in set_clients (registry_erase (clients w1) fd) w1)"

section \<open>The recursive operations\<close>

function (sequential)
      sendTo :: "fd \<Rightarrow> string \<Rightarrow> world \<Rightarrow> bool \<times> world"
  and refreshInterest :: "fd \<Rightarrow> world \<Rightarrow> bool \<times> world"
  and disconnect :: "fd \<Rightarrow> string \<Rightarrow> world \<Rightarrow> world"
  and onDisconnect :: "connection \<Rightarrow> string \<Rightarrow> world \<Rightarrow> world"
  and removeClientState :: "fd \<Rightarrow> string \<Rightarrow> bool \<Rightarrow> world \<Rightarrow> world"
  and sendEach :: "fd list \<Rightarrow> string \<Rightarrow> world \<Rightarrow> world"
where
  "sendTo fd line w =
     (case findConnection w fd of
        None \<Rightarrow> (False, w)
      | Some connection \<Rightarrow>
          (case refreshInterest fd (store_queued fd (queueLine connection line) w) of
             (refreshed, w1) \<Rightarrow> (fst (queueLine connection line) \<and> refreshed, w1)))"
| "refreshInterest fd w =
     (case findConnection w fd of
        None \<Rightarrow> (False, w)
      | Some connection \<Rightarrow>
          if cn_closeRequested connection \<and> \<not> wantsWrite connection
          then (False, disconnect fd (cn_closeReason connection) w)
          else
            (case srv_eventManager (w_server w) of
               None \<Rightarrow> (False, w\<lparr>w_fault := True\<rparr>)
             | Some em \<Rightarrow>
                 (let result = updateFd_call em fd (desired_interest connection) w in
                  case fst result of
                    None \<Rightarrow> (True, snd result)
                  | Some what \<Rightarrow>
                      (False, disconnect fd ''event interest update failed'' (reportError what (snd result))))))"
| "disconnect fd reason w =
     (case findConnection w fd of
        None \<Rightarrow> w
      | Some connection \<Rightarrow>
          (let w1 = detach fd w;
               w2 = (if srv_onDisconnect (w_server w1) then onDisconnect connection reason w1 else w1)
           in closeFd connection w2))"
| "onDisconnect connection reason w =
     (let w1 = removeClientState (cn_fd connection) reason True w in
      logEvent ''client_disconnected'' [(''fd'', show_int (cn_fd connection)), (''reason'', reason)] w1)"
| "removeClientState fd reason notifyPeers w =
     (case registry_find (clients w) fd of
        None \<Rightarrow> w
      | Some client \<Rightarrow>
          (let w1 = (if notifyPeers \<and> cs_registered client \<and> cs_nick client \<noteq> []
                     then sendEach (om_keys (channel_peers (channels w) fd))
                            (formatMessage (prefixForClient w client) ''QUIT'' [reason]) w
                     else w)
           in purge fd w1))"
| "sendEach [] line w = w"
| "sendEach (peer # peers) line w = sendEach peers line (snd (sendTo peer line w))"
  by pat_completeness auto

section \<open>Termination\<close>

lemma set_manager_frame [simp]:
  "conns (set_manager em k w) = conns w" "w_app (set_manager em k w) = w_app w"
  "w_fault (set_manager em k w) = w_fault w" "srv_eventManager (w_server (set_manager em k w)) = Some em"
  "srv_onDisconnect (w_server (set_manager em k w)) = srv_onDisconnect (w_server w)"
  "srv_onConnect (w_server (set_manager em k w)) = srv_onConnect (w_server w)"
  "srv_metrics (w_server (set_manager em k w)) = srv_metrics (w_server w)"
  "srv_config (w_server (set_manager em k w)) = srv_config (w_server w)"
  by (simp_all add: set_manager_def)

lemma updateFd_call_conns [simp]: "conns (snd (updateFd_call em fd i w)) = conns w"
  by (auto simp: updateFd_call_def split: prod.splits)

lemma removeFd_call_conns: "removeFd_call em fd w = (r, w') \<Longrightarrow> conns w' = conns w"
  by (auto simp: removeFd_call_def split: prod.splits)

lemma conns_detach [simp]: "conns (detach fd w) = om_del fd (conns w)"
  by (auto simp: detach_def Let_def removeFd_call_conns split: option.splits prod.splits)

lemma conns_store_queued [simp]: "conns (store_queued fd r w) = om_put fd (snd r) (conns w)"
  by (simp add: store_queued_def Let_def)

lemma conns_closeFd [simp]: "conns (closeFd c w) = conns w"
  by (simp add: closeFd_def)

lemma conns_purge [simp]: "conns (purge fd w) = conns w"
  by (simp add: purge_def Let_def)

text \<open>No operation of the cascade adds a connection; proved on the domain of the recursion.\<close>

lemma cascade_shrinks:
  shows "sendTo_refreshInterest_disconnect_onDisconnect_removeClientState_sendEach_dom (Inl (Inl (fd, line, w))) \<Longrightarrow>
      om_dom (conns (snd (sendTo fd line w))) \<subseteq> om_dom (conns w)"
    and "sendTo_refreshInterest_disconnect_onDisconnect_removeClientState_sendEach_dom (Inl (Inr (Inl (fd2, w2)))) \<Longrightarrow>
      om_dom (conns (snd (refreshInterest fd2 w2))) \<subseteq> om_dom (conns w2)"
    and "sendTo_refreshInterest_disconnect_onDisconnect_removeClientState_sendEach_dom (Inl (Inr (Inr (fd3, r3, w3)))) \<Longrightarrow>
      om_dom (conns (disconnect fd3 r3 w3)) \<subseteq> om_dom (conns w3)"
    and "sendTo_refreshInterest_disconnect_onDisconnect_removeClientState_sendEach_dom (Inr (Inl (c, r, w4))) \<Longrightarrow>
      om_dom (conns (onDisconnect c r w4)) \<subseteq> om_dom (conns w4)"
    and "sendTo_refreshInterest_disconnect_onDisconnect_removeClientState_sendEach_dom (Inr (Inr (Inl (fd5, r5, n5, w5)))) \<Longrightarrow>
      om_dom (conns (removeClientState fd5 r5 n5 w5)) \<subseteq> om_dom (conns w5)"
    and "sendTo_refreshInterest_disconnect_onDisconnect_removeClientState_sendEach_dom (Inr (Inr (Inr (ps, l, w6)))) \<Longrightarrow>
      om_dom (conns (sendEach ps l w6)) \<subseteq> om_dom (conns w6)"
proof (induction rule: sendTo_refreshInterest_disconnect_onDisconnect_removeClientState_sendEach.pinduct)
  case (1 fd line w)
  then show ?case
    by (cases "findConnection w fd") (fastforce simp: sendTo.psimps findConnection_def split: prod.splits)+
next
  case (2 fd w)
  then show ?case
    by (auto simp: refreshInterest.psimps Let_def split: option.splits)
next
  case (3 fd reason w)
  then show ?case
    by (fastforce simp: disconnect.psimps Let_def split: option.splits if_splits)
next
  case (4 connection reason w)
  then show ?case by (simp add: onDisconnect.psimps Let_def)
next
  case (5 fd reason notifyPeers w)
  then show ?case by (auto simp: removeClientState.psimps Let_def split: option.splits)
next
  case (6 line w)
  then show ?case by (simp add: sendEach.psimps)
next
  case (7 peer peers line w)
  then show ?case by (auto simp: sendEach.psimps)
qed

text \<open>
  The measure: the open connections, then how deep in the call chain the function is, then the
  peers left to notify.  Only \<open>disconnect\<close> starts a new round, after it has removed a connection.
\<close>

lemma cascade_total: "All sendTo_refreshInterest_disconnect_onDisconnect_removeClientState_sendEach_dom"
proof (relation "measures [
    \<lambda>x. case x of
        Inl (Inl (_, _, w)) \<Rightarrow> om_size (conns w)
      | Inl (Inr (Inl (_, w))) \<Rightarrow> om_size (conns w)
      | Inl (Inr (Inr (_, _, w))) \<Rightarrow> om_size (conns w)
      | Inr (Inl (_, _, w)) \<Rightarrow> om_size (conns w)
      | Inr (Inr (Inl (_, _, _, w))) \<Rightarrow> om_size (conns w)
      | Inr (Inr (Inr (_, _, w))) \<Rightarrow> om_size (conns w),
    \<lambda>x. case x of
        Inl (Inl _) \<Rightarrow> 2
      | Inl (Inr (Inl _)) \<Rightarrow> 1
      | Inl (Inr (Inr _)) \<Rightarrow> 0
      | Inr (Inl _) \<Rightarrow> 5
      | Inr (Inr (Inl _)) \<Rightarrow> 4
      | Inr (Inr (Inr _)) \<Rightarrow> (3::nat),
    \<lambda>x. case x of Inr (Inr (Inr (ps, _, _))) \<Rightarrow> length ps | _ \<Rightarrow> 0]", goal_cases)
  case 1
  show ?case by simp
qed (auto simp: findConnection_def om_size_del_less om_size_put_same om_size_card
      dest!: cascade_shrinks(1) intro: psubset_card_mono card_mono card_Diff1_less)

termination sendTo by (rule cascade_total)

declare sendTo.simps [simp del] refreshInterest.simps [simp del] disconnect.simps [simp del]
  onDisconnect.simps [simp del] removeClientState.simps [simp del]

lemmas cascade_induct = sendTo_refreshInterest_disconnect_onDisconnect_removeClientState_sendEach.induct

text \<open>With termination settled the connections only shrink, unconditionally.\<close>

lemma cascade_dom:
  "om_dom (conns (snd (sendTo fd line w))) \<subseteq> om_dom (conns w)"
  "om_dom (conns (snd (refreshInterest fd w))) \<subseteq> om_dom (conns w)"
  "om_dom (conns (disconnect fd r w)) \<subseteq> om_dom (conns w)"
  "om_dom (conns (onDisconnect c r w)) \<subseteq> om_dom (conns w)"
  "om_dom (conns (removeClientState fd r n w)) \<subseteq> om_dom (conns w)"
  "om_dom (conns (sendEach ps line w)) \<subseteq> om_dom (conns w)"
  using cascade_total by (simp_all add: cascade_shrinks)

lemma disconnect_removes: "findConnection (disconnect fd r w) fd = None"
  using cascade_dom(4) [of _ r "detach fd w"]
  by (subst disconnect.simps) (auto simp: findConnection_def Let_def split: option.splits)

section \<open>Invariants of the cascade\<close>

text \<open>
  A state predicate is carried through the whole recursion by its behaviour on the primitive
  steps.  It is indexed by the clients whose connection is gone but whose state is still to be
  purged (\<open>R\<close>) and by the connections whose registered interest may be out of date (\<open>E\<close>).
\<close>

locale relay_invariant =
  fixes P :: "fd set \<Rightarrow> fd set \<Rightarrow> world \<Rightarrow> bool"
  assumes mono: "P R E w \<Longrightarrow> E \<subseteq> E' \<Longrightarrow> P R E' w"
    and absent: "P R E w \<Longrightarrow> findConnection w fd = None \<Longrightarrow> P R (E - {fd}) w"
    and handler: "P R E w \<Longrightarrow> srv_onDisconnect (w_server w)"
    and manager: "P R E w \<Longrightarrow> findConnection w fd = Some c \<Longrightarrow> srv_eventManager (w_server w) \<noteq> None"
    and owner: "P R E w \<Longrightarrow> findConnection w fd = Some c \<Longrightarrow> cn_fd c = fd \<and> fd \<notin> R"
    and outside: "P R E w \<Longrightarrow> undisturbed w w' \<Longrightarrow> P R E w'"
    and queue: "P R E w \<Longrightarrow> findConnection w fd = Some c \<Longrightarrow>
          P R (insert fd E) (store_queued fd (queueLine c line) w)"
    and refresh: "P R E w \<Longrightarrow> findConnection w fd = Some c \<Longrightarrow>
          \<not> (cn_closeRequested c \<and> \<not> wantsWrite c) \<Longrightarrow> srv_eventManager (w_server w) = Some em \<Longrightarrow>
          updateFd_call em fd (desired_interest c) w = (None, w') \<Longrightarrow> P R (E - {fd}) w'"
    and refresh_throws: "P R E w \<Longrightarrow> srv_eventManager (w_server w) = Some em \<Longrightarrow>
          updateFd_call em fd (desired_interest c) w = (Some e, w') \<Longrightarrow> P R E w'"
    and detach: "P R E w \<Longrightarrow> findConnection w fd = Some c \<Longrightarrow> P (insert fd R) (E - {fd}) (detach fd w)"
    and purge: "P (insert fd R) E w \<Longrightarrow> fd \<notin> R \<Longrightarrow> P R E (purge fd w)"
    and unknown: "P (insert fd R) E w \<Longrightarrow> fd \<notin> R \<Longrightarrow> registry_find (clients w) fd = None \<Longrightarrow> P R E w"
begin

lemma log: "P R E w \<Longrightarrow> P R E (logEvent n fs w)"
  by (rule outside [of R E w]) (simp_all add: undisturbed_def)

lemma close: "P R E w \<Longrightarrow> P R E (closeFd c w)"
  by (rule outside [of R E w]) (simp_all add: closeFd_def undisturbed_def)

lemma report: "P R E w \<Longrightarrow> P R E (reportError m w)"
  by (simp add: reportError_def log)

lemma cascade:
  shows "\<forall>R E. P R E w1 \<longrightarrow> P R (E - {fd1}) (snd (sendTo fd1 line1 w1))"
    and "\<forall>R E. P R E w2 \<longrightarrow> P R (E - {fd2}) (snd (refreshInterest fd2 w2))"
    and "\<forall>R E. P R E w3 \<longrightarrow> P R (E - {fd3}) (disconnect fd3 r3 w3)"
    and "\<forall>R E. P (insert (cn_fd c4) R) E w4 \<and> cn_fd c4 \<notin> R \<longrightarrow> P R E (onDisconnect c4 r4 w4)"
    and "\<forall>R E. P (insert fd5 R) E w5 \<and> fd5 \<notin> R \<longrightarrow> P R E (removeClientState fd5 r5 n5 w5)"
    and "\<forall>R E. P R E w6 \<longrightarrow> P R E (sendEach ps line6 w6)"
proof (induction fd1 line1 w1 and fd2 w2 and fd3 r3 w3 and c4 r4 w4 and fd5 r5 n5 w5 and ps line6 w6
    rule: cascade_induct)
  case (1 fd line w)
  show ?case
  proof (intro allI impI)
    fix R E assume p: "P R E w"
    show "P R (E - {fd}) (snd (sendTo fd line w))"
    proof (cases "findConnection w fd")
      case None
      with p show ?thesis by (simp add: sendTo.simps absent)
    next
      case (Some c)
      with 1 queue [OF p Some, of line]
      have "P R (insert fd E - {fd}) (snd (refreshInterest fd (store_queued fd (queueLine c line) w)))"
        by blast
      then show ?thesis by (auto simp: sendTo.simps Some split: prod.splits intro: mono)
    qed
  qed
next
  case (2 fd w)
  show ?case
  proof (intro allI impI)
    fix R E assume p: "P R E w"
    show "P R (E - {fd}) (snd (refreshInterest fd w))"
    proof (cases "findConnection w fd")
      case None
      with p show ?thesis by (simp add: refreshInterest.simps absent)
    next
      case (Some c)
      note conn = this
      from manager [OF p Some] obtain em where em: "srv_eventManager (w_server w) = Some em" by blast
      obtain r w' where u: "updateFd_call em fd (desired_interest c) w = (r, w')" by fastforce
      show ?thesis
      proof (cases r)
        case None
        with u em Some p 2(1) show ?thesis
          by (auto simp: refreshInterest.simps intro: refresh)
      next
        case (Some e)
        with u have "P R E (reportError e w')" by (blast intro: report refresh_throws [OF p em])
        moreover have "P R (E - {fd}) (disconnect fd ''event interest update failed'' (reportError e w'))"
          if "\<not> (cn_closeRequested c \<and> \<not> wantsWrite c)" "P R E (reportError e w')"
          using 2(2) [OF conn that(1) em u [symmetric]] Some that(2) by simp
        ultimately show ?thesis
          using 2(1) [OF conn] u em p Some conn by (auto simp: refreshInterest.simps)
      qed
    qed
  qed
next
  case (3 fd reason w)
  show ?case
  proof (intro allI impI)
    fix R E assume p: "P R E w"
    show "P R (E - {fd}) (disconnect fd reason w)"
    proof (cases "findConnection w fd")
      case None
      with p show ?thesis by (simp add: disconnect.simps absent)
    next
      case (Some c)
      note d = detach [OF p Some]
      from owner [OF p Some] have "cn_fd c = fd" "fd \<notin> R" by auto
      with 3 Some d handler [OF d] have "P R (E - {fd}) (onDisconnect c reason (detach fd w))" by simp
      with handler [OF d] show ?thesis by (simp add: disconnect.simps Some Let_def close)
    qed
  qed
next
  case (4 connection reason w)
  then show ?case unfolding onDisconnect.simps Let_def by (blast intro: log)
next
  case (5 fd reason notifyPeers w)
  then show ?case
    by (auto simp: removeClientState.simps Let_def split: option.splits intro: unknown purge)
next
  case (6 line w)
  show ?case by simp
next
  case (7 peer peers line w)
  have "P R E (snd (sendTo peer line w))" if "P R E w" for R E
    using 7(1) that mono [OF _ Diff_subset] by blast
  with 7(2) show ?case by simp
qed

lemmas sendTo = cascade(1) [rule_format]
lemmas refreshInterest = cascade(2) [rule_format]
lemmas disconnect = cascade(3) [rule_format]
lemmas sendEach = cascade(6) [rule_format]

lemma sendTo_keeps: "P R E w \<Longrightarrow> P R E (snd (sendTo fd line w))"
  by (rule mono [OF sendTo]) auto

lemma disconnect_keeps: "P R E w \<Longrightarrow> P R E (disconnect fd r w)"
  by (rule mono [OF disconnect]) auto

end

end
