(* ===== verification/Service.thy ===== *)
theory Service
  imports Relay
begin

text \<open>
  The invariant of the service between two events and the proof that the send and disconnect
  cascade of \<open>Relay\<close> keeps it.  On the transport side every connection is attended: it has an
  interest registered that will wake the server up for what the connection still has to do.  On the
  application side clients, connections, nicknames and channels agree.
\<close>

section \<open>What the primitive steps change\<close>

definition interest_of :: "world \<Rightarrow> fd \<Rightarrow> event_interest option" where
  "interest_of w fd =
     (case srv_eventManager (w_server w) of None \<Rightarrow> None | Some em \<Rightarrow> om_get (em_interests em) fd)"

lemma interest_of_cong: "w_server w' = w_server w \<Longrightarrow> interest_of w' = interest_of w"
  by (simp add: interest_of_def fun_eq_iff)

lemma desired_interest [simp]:
  "desired_interest c \<noteq> NoInterest"
  "wantsWrite c \<Longrightarrow> hasInterest (desired_interest c) WriteInterest"
  "\<not> cn_closeRequested c \<Longrightarrow> hasInterest (desired_interest c) ReadInterest"
  by (auto simp: desired_interest_def Let_def)

text \<open>The fields of the server that the transport steps leave alone.\<close>

definition same_setup :: "server \<Rightarrow> server \<Rightarrow> bool" where
  "same_setup s s' \<longleftrightarrow>
     srv_config s' = srv_config s \<and> srv_listenFd s' = srv_listenFd s \<and> srv_running s' = srv_running s \<and>
     srv_stopRequested s' = srv_stopRequested s \<and> srv_onConnect s' = srv_onConnect s \<and>
     srv_onLine s' = srv_onLine s \<and> srv_onDisconnect s' = srv_onDisconnect s \<and> srv_onError s' = srv_onError s"

lemma updateFd_call_cases:
  assumes "updateFd_call em fd i w = (r, w')" and "srv_eventManager (w_server w) = Some em" and "i \<noteq> NoInterest"
  shows "conns w' = conns w" and "w_app w' = w_app w" and "w_fault w' = w_fault w"
    and "srv_metrics (w_server w') = srv_metrics (w_server w)" and "same_setup (w_server w) (w_server w')"
    and "srv_eventManager (w_server w') \<noteq> None"
    and "interest_of w' = (if r = None then (interest_of w)(fd \<mapsto> i) else interest_of w)"
proof -
  obtain em' k' where u: "em_updateFd (strerror_of w) em (os_ctl (w_os w)) fd i = (r, em', k')"
    and w': "w' = set_manager em' k' w"
    using assms(1) by (auto simp: updateFd_call_def split: prod.splits)
  show "conns w' = conns w" "w_app w' = w_app w" "w_fault w' = w_fault w"
    "srv_metrics (w_server w') = srv_metrics (w_server w)" "same_setup (w_server w) (w_server w')"
    "srv_eventManager (w_server w') \<noteq> None"
    unfolding w' by (simp_all add: set_manager_def same_setup_def)
  show "interest_of w' = (if r = None then (interest_of w)(fd \<mapsto> i) else interest_of w)"
    using u assms(2,3) emgr.update_ok [OF assms(3), of "strerror_of w" em "os_ctl (w_os w)" fd em' k']
      emgr.update_throws [of "strerror_of w" em "os_ctl (w_os w)" fd i _ em' k']
    by (cases r) (auto simp: w' interest_of_def fun_eq_iff)
qed

lemma detach_effect:
  shows "w_app (detach fd w) = w_app w" and "w_fault (detach fd w) = w_fault w"
    and "same_setup (w_server w) (w_server (detach fd w))"
    and "srv_metrics (w_server (detach fd w)) =
           (srv_metrics (w_server w))\<lparr>closedConnections := closedConnections (srv_metrics (w_server w)) + 1\<rparr>"
    and "srv_eventManager (w_server (detach fd w)) = None \<longleftrightarrow> srv_eventManager (w_server w) = None"
    and "g \<noteq> fd \<Longrightarrow> interest_of (detach fd w) g = interest_of w g"
proof -
  show "w_app (detach fd w) = w_app w" "w_fault (detach fd w) = w_fault w"
    "same_setup (w_server w) (w_server (detach fd w))"
    "srv_metrics (w_server (detach fd w)) =
       (srv_metrics (w_server w))\<lparr>closedConnections := closedConnections (srv_metrics (w_server w)) + 1\<rparr>"
    "srv_eventManager (w_server (detach fd w)) = None \<longleftrightarrow> srv_eventManager (w_server w) = None"
    by (auto simp: detach_def Let_def removeFd_call_def set_manager_def same_setup_def
        split: option.splits prod.splits)
  assume "g \<noteq> fd"
  then show "interest_of (detach fd w) g = interest_of w g"
    using emgr.others_kept_remove [of "strerror_of w" _ "os_ctl (w_os w)" fd _ _ _ g]
    by (auto simp: detach_def Let_def removeFd_call_def set_manager_def interest_of_def
        split: option.splits prod.splits)
qed

lemma store_queued_effect:
  shows "w_app (store_queued fd r w) = w_app w" and "w_fault (store_queued fd r w) = w_fault w"
    and "same_setup (w_server w) (w_server (store_queued fd r w))"
    and "acceptedConnections (srv_metrics (w_server (store_queued fd r w))) = acceptedConnections (srv_metrics (w_server w))"
    and "closedConnections (srv_metrics (w_server (store_queued fd r w))) = closedConnections (srv_metrics (w_server w))"
    and "srv_eventManager (w_server (store_queued fd r w)) = srv_eventManager (w_server w)"
    and "interest_of (store_queued fd r w) = interest_of w"
  by (simp_all add: store_queued_def Let_def same_setup_def interest_of_def fun_eq_iff)

lemma closeFd_effect [simp]:
  "w_server (closeFd c w) = w_server w" "w_app (closeFd c w) = w_app w" "w_fault (closeFd c w) = w_fault w"
  by (simp_all add: closeFd_def)

lemma purge_effect [simp]:
  "w_server (purge fd w) = w_server w" "w_fault (purge fd w) = w_fault w"
  "clients (purge fd w) = registry_erase (clients w) fd"
  by (simp_all add: purge_def Let_def)

lemma channels_purge:
  "om_get (channels (purge fd w)) n =
     (case om_get (channels w) n of
        None \<Rightarrow> None
      | Some ch \<Rightarrow>
          if hasMember ch fd then (if Channel_empty (removeMember ch fd) then None else Some (removeMember ch fd))
          else Some ch)"
proof -
  have "n \<in> set (emptied_channels fd (channels w)) \<longleftrightarrow>
      (\<exists>ch. om_get (channels w) n = Some ch \<and> hasMember ch fd \<and> Channel_empty (removeMember ch fd))"
    by (force simp: emptied_channels_def om_set_entries)
  then show ?thesis by (auto simp: purge_def Let_def split: option.splits)
qed

section \<open>The transport invariant\<close>

text \<open>
  A connection that is closing still has output to flush (otherwise it would have been closed), and
  the registered interest covers pending output and, unless the connection is closing, input.
\<close>

definition attended :: "world \<Rightarrow> fd \<Rightarrow> connection \<Rightarrow> bool" where
  "attended w fd c \<longleftrightarrow>
     (cn_closeRequested c \<longrightarrow> wantsWrite c) \<and>
     (\<exists>i. interest_of w fd = Some i \<and> (wantsWrite c \<longrightarrow> hasInterest i WriteInterest) \<and>
          (\<not> cn_closeRequested c \<longrightarrow> hasInterest i ReadInterest))"

definition server_ok :: "fd set \<Rightarrow> world \<Rightarrow> bool" where
  "server_ok E w \<longleftrightarrow>
     (\<forall>fd c. findConnection w fd = Some c \<longrightarrow>
        cn_fd c = fd \<and> 0 \<le> fd \<and> cn_writeOffset c \<le> length (cn_writeBuffer c) \<and>
        srv_eventManager (w_server w) \<noteq> None \<and> (fd \<notin> E \<longrightarrow> attended w fd c)) \<and>
     acceptedConnections (srv_metrics (w_server w)) =
       closedConnections (srv_metrics (w_server w)) + of_nat (connectionCount w) \<and>
     srv_onConnect (w_server w) \<and> srv_onDisconnect (w_server w) \<and>
     (srv_running (w_server w) \<longrightarrow> srv_eventManager (w_server w) \<noteq> None) \<and> \<not> w_fault w"

section \<open>The application invariant\<close>

definition client_ok :: "fd \<Rightarrow> client_state \<Rightarrow> bool" where
  "client_ok fd st \<longleftrightarrow>
     cs_fd st = fd \<and> (cs_registered st \<longrightarrow> cs_passOk st \<and> cs_hasNick st \<and> cs_hasUser st) \<and>
     (cs_hasNick st \<longleftrightarrow> cs_nick st \<noteq> []) \<and> (cs_nick st \<noteq> [] \<longrightarrow> isValidNickname (cs_nick st))"

definition channel_ok :: "client_registry \<Rightarrow> string \<Rightarrow> channel \<Rightarrow> bool" where
  "channel_ok reg name ch \<longleftrightarrow>
     ch_name ch = name \<and> isValidName name \<and> channel_wf ch \<and> (\<exists>m. hasMember ch m) \<and>
     (\<forall>m. hasMember ch m \<longrightarrow> (\<exists>st. registry_find reg m = Some st \<and> cs_registered st))"

definition app_ok :: "fd set \<Rightarrow> world \<Rightarrow> bool" where
  "app_ok R w \<longleftrightarrow>
     registry_inv (clients w) \<and>
     (\<forall>fd st. registry_find (clients w) fd = Some st \<longrightarrow> client_ok fd st) \<and>
     (\<forall>fd. registry_find (clients w) fd \<noteq> None \<longleftrightarrow> findConnection w fd \<noteq> None \<or> fd \<in> R) \<and>
     (\<forall>fd \<in> R. findConnection w fd = None) \<and>
     (\<forall>name ch. om_get (channels w) name = Some ch \<longrightarrow> channel_ok (clients w) name ch)"

text \<open>The state of the service between two events is \<open>service_ok {} {}\<close>.\<close>

definition service_ok :: "fd set \<Rightarrow> fd set \<Rightarrow> world \<Rightarrow> bool" where
  "service_ok R E w \<longleftrightarrow> server_ok E w \<and> app_ok R w"

lemma server_okD:
  assumes "server_ok E w" and "findConnection w fd = Some c"
  shows "cn_fd c = fd" and "0 \<le> fd" and "cn_writeOffset c \<le> length (cn_writeBuffer c)"
    and "srv_eventManager (w_server w) \<noteq> None" and "fd \<notin> E \<Longrightarrow> attended w fd c"
  using assms by (auto simp: server_ok_def)

lemma app_okD:
  assumes "app_ok R w"
  shows "registry_inv (clients w)" and "registry_find (clients w) fd = Some st \<Longrightarrow> client_ok fd st"
    and "registry_find (clients w) fd \<noteq> None \<longleftrightarrow> findConnection w fd \<noteq> None \<or> fd \<in> R"
    and "fd \<in> R \<Longrightarrow> findConnection w fd = None"
    and "om_get (channels w) name = Some ch \<Longrightarrow> channel_ok (clients w) name ch"
  using assms by (auto simp: app_ok_def)

text \<open>The invariants read only these parts of the state.\<close>

lemma attended_cong: "interest_of w' fd = interest_of w fd \<Longrightarrow> attended w' fd c = attended w fd c"
  by (simp add: attended_def)

lemma server_ok_cong: "w_server w' = w_server w \<Longrightarrow> w_fault w' = w_fault w \<Longrightarrow> server_ok E w' = server_ok E w"
  by (simp add: server_ok_def lookup_defs attended_def interest_of_def)

lemma app_ok_cong:
  "clients w' = clients w \<Longrightarrow> channels w' = channels w \<Longrightarrow> om_dom (conns w') = om_dom (conns w) \<Longrightarrow>
   app_ok R w' = app_ok R w"
proof -
  assume eq: "clients w' = clients w" "channels w' = channels w" "om_dom (conns w') = om_dom (conns w)"
  from eq(3) have "findConnection w' fd = None \<longleftrightarrow> findConnection w fd = None" for fd
    by (metis findConnection_def domIff)
  with eq(1,2) show ?thesis by (simp add: app_ok_def)
qed

text \<open>What happens outside the server and the application objects does not matter.\<close>

lemma service_os_step:
  assumes "service_ok R E w" and "w_server w' = w_server w" and "w_app w' = w_app w" and "w_fault w' = w_fault w"
  shows "service_ok R E w'"
  using assms app_ok_cong [of w' w R] server_ok_cong [of w' w E] by (simp add: service_ok_def)

lemma service_ok_log [simp]: "service_ok R E (logEvent n fs w) = service_ok R E w"
  unfolding service_ok_def
  using server_ok_cong [of "logEvent n fs w" w E] app_ok_cong [of "logEvent n fs w" w R] by simp

section \<open>Every primitive step keeps the transport invariant\<close>

lemma server_ok_mono: "server_ok E w \<Longrightarrow> E \<subseteq> E' \<Longrightarrow> server_ok E' w"
  by (auto simp: server_ok_def)

lemma server_ok_absent: "server_ok E w \<Longrightarrow> findConnection w fd = None \<Longrightarrow> server_ok (E - {fd}) w"
  by (auto simp: server_ok_def)

lemma om_size_del_present: "om_get m k = Some v \<Longrightarrow> om_size m = Suc (om_size (om_del k m))"
  unfolding om_size_card om_dom_del by (rule card_Suc_Diff1 [symmetric]) (auto intro: domI)

lemma queueLine_frame:
  assumes "queueLine c line = (q, c')"
  shows "cn_fd c' = cn_fd c" and "cn_writeOffset c' = cn_writeOffset c"
    and "length (cn_writeBuffer c) \<le> length (cn_writeBuffer c')"
    and "q \<Longrightarrow> cn_writeOffset c \<le> length (cn_writeBuffer c) \<Longrightarrow> wantsWrite c'"
  using assms by (auto simp: queueLine_def Let_def conn_requestClose_def wantsWrite_def split: if_splits)

text \<open>Replacing one connection by another one for the same descriptor.\<close>

lemma server_ok_replace:
  assumes ok: "server_ok E w" and conn: "findConnection w fd = Some c"
    and c': "cn_fd c' = cn_fd c" "cn_writeOffset c' \<le> length (cn_writeBuffer c')"
    and w': "conns w' = om_put fd c' (conns w)" "w_fault w' = w_fault w" "same_setup (w_server w) (w_server w')"
      "acceptedConnections (srv_metrics (w_server w')) = acceptedConnections (srv_metrics (w_server w))"
      "closedConnections (srv_metrics (w_server w')) = closedConnections (srv_metrics (w_server w))"
      "srv_eventManager (w_server w') = srv_eventManager (w_server w)"
  shows "server_ok (insert fd E) w'"
proof -
  have "interest_of w' = interest_of w" by (simp add: interest_of_def w'(6) fun_eq_iff)
  moreover have "om_size (om_put fd c' (conns w)) = om_size (conns w)"
    using conn by (simp add: findConnection_def om_size_put_same)
  ultimately show ?thesis
    using ok conn c' w' server_okD [OF ok conn]
    by (auto simp: server_ok_def lookup_defs attended_def same_setup_def)
qed

lemma server_ok_queue:
  assumes "server_ok E w" and "findConnection w fd = Some c"
  shows "server_ok (insert fd E) (store_queued fd (queueLine c line) w)"
proof -
  obtain q c' where q: "queueLine c line = (q, c')" by fastforce
  show ?thesis
    unfolding q
    by (rule server_ok_replace [OF assms, of c'])
       (use queueLine_frame [OF q] server_okD [OF assms] in \<open>auto simp: store_queued_effect\<close>)
qed

lemma server_ok_update:
  assumes ok: "server_ok E w" and em: "srv_eventManager (w_server w) = Some em"
    and u: "updateFd_call em fd i w = (r, w')" and "i \<noteq> NoInterest"
    and "r = None \<Longrightarrow> findConnection w fd = Some c \<and> i = desired_interest c \<and> \<not> (cn_closeRequested c \<and> \<not> wantsWrite c)"
  shows "server_ok (if r = None then E - {fd} else E) w'"
proof -
  note f = updateFd_call_cases [OF u em assms(4)]
  have "findConnection w' = findConnection w" by (simp add: findConnection_def fun_eq_iff f(1))
  then show ?thesis
    using ok f assms(5) unfolding server_ok_def connectionCount_def f(1) f(3) f(4)
    by (auto simp: same_setup_def attended_def)
qed

lemma server_ok_detach:
  assumes ok: "server_ok E w" and conn: "findConnection w fd = Some c"
  shows "server_ok (E - {fd}) (detach fd w)"
  using ok conn om_size_del_present [of "conns w" fd c] detach_effect [where fd = fd and w = w]
  by (auto simp: server_ok_def lookup_defs attended_def same_setup_def)

section \<open>Every primitive step keeps the application invariant\<close>

lemma findConnection_detach: "findConnection (detach fd w) g = (if g = fd then None else findConnection w g)"
  by (simp add: findConnection_def)

lemma app_ok_detach:
  assumes "app_ok R w" and "findConnection w fd = Some c"
  shows "app_ok (insert fd R) (detach fd w)"
  using assms by (auto simp: app_ok_def findConnection_detach detach_effect(1) split: if_splits)

lemma channel_ok_erase:
  assumes "channel_ok reg n ch" and "\<not> hasMember ch fd"
  shows "channel_ok (registry_erase reg fd) n ch"
  using assms by (auto simp: channel_ok_def find_erase)

lemma channel_ok_purged:
  assumes "channel_ok reg n ch" and "\<not> Channel_empty (removeMember ch fd)"
  shows "channel_ok (registry_erase reg fd) n (removeMember ch fd)"
  using assms by (auto simp: channel_ok_def find_erase Channel_empty_iff)

lemma app_ok_purge:
  assumes ok: "app_ok (insert fd R) w" and "fd \<notin> R"
  shows "app_ok R (purge fd w)"
  unfolding app_ok_def
proof (intro conjI allI ballI impI)
  have conn: "findConnection (purge fd w) g = findConnection w g" for g by (simp add: findConnection_def)
  show "registry_inv (clients (purge fd w))"
    using app_okD(1) [OF ok] by (simp add: erase_inv)
  show "client_ok g st" if "registry_find (clients (purge fd w)) g = Some st" for g st
    using that app_okD(2) [OF ok] by (simp add: find_erase split: if_splits)
  show "registry_find (clients (purge fd w)) g \<noteq> None \<longleftrightarrow> findConnection (purge fd w) g \<noteq> None \<or> g \<in> R" for g
    using app_okD(3,4) [OF ok, of g] \<open>fd \<notin> R\<close> by (auto simp: find_erase conn)
  show "findConnection (purge fd w) g = None" if "g \<in> R" for g
    using app_okD(4) [OF ok, of g] that by (simp add: conn)
  show "channel_ok (clients (purge fd w)) n ch" if "om_get (channels (purge fd w)) n = Some ch" for n ch
    using that app_okD(5) [OF ok, of n]
    by (auto simp: channels_purge channel_ok_erase channel_ok_purged split: option.splits if_splits)
qed

lemma app_ok_unknown:
  assumes "app_ok (insert fd R) w" and "fd \<notin> R" and "registry_find (clients w) fd = None"
  shows "app_ok R w"
  using assms by (auto simp: app_ok_def)

section \<open>The service invariant is an invariant of the cascade\<close>

lemma dom_conns_put: "om_get m fd = Some c \<Longrightarrow> om_dom (om_put fd c' m) = om_dom m"
  by auto

interpretation svc: relay_invariant service_ok
proof
  fix R E E' w fd c n fs
  show "service_ok R E w \<Longrightarrow> E \<subseteq> E' \<Longrightarrow> service_ok R E' w"
    by (auto simp: service_ok_def intro: server_ok_mono)
  show "service_ok R E w \<Longrightarrow> findConnection w fd = None \<Longrightarrow> service_ok R (E - {fd}) w"
    by (auto simp: service_ok_def intro: server_ok_absent)
  show "service_ok R E w \<Longrightarrow> srv_onDisconnect (w_server w)"
    by (simp add: service_ok_def server_ok_def)
  show "service_ok R E w \<Longrightarrow> findConnection w fd = Some c \<Longrightarrow> srv_eventManager (w_server w) \<noteq> None"
    using server_okD(4) by (auto simp: service_ok_def)
  show "service_ok R E w \<Longrightarrow> findConnection w fd = Some c \<Longrightarrow> cn_fd c = fd \<and> fd \<notin> R"
    by (auto simp: service_ok_def server_okD dest: app_okD(4))
  show "service_ok R E w \<Longrightarrow> undisturbed w w' \<Longrightarrow> service_ok R E w'" for w'
    by (rule service_os_step) (simp_all add: undisturbed_def)
next
  fix R E w fd c line
  assume ok: "service_ok R E w" and conn: "findConnection w fd = Some c"
  then have "app_ok R (store_queued fd (queueLine c line) w)"
    using app_ok_cong [of "store_queued fd (queueLine c line) w" w R]
    by (auto simp: service_ok_def store_queued_effect findConnection_def dom_conns_put)
  with ok conn show "service_ok R (insert fd E) (store_queued fd (queueLine c line) w)"
    by (simp add: service_ok_def server_ok_queue)
next
  fix R E w fd c em w'
  assume ok: "service_ok R E w" and conn: "findConnection w fd = Some c"
    and c: "\<not> (cn_closeRequested c \<and> \<not> wantsWrite c)" and em: "srv_eventManager (w_server w) = Some em"
    and u: "updateFd_call em fd (desired_interest c) w = (None, w')"
  note f = updateFd_call_cases [OF u em desired_interest(1)]
  have "app_ok R w'" using ok app_ok_cong [of w' w R] f by (simp add: service_ok_def)
  then show "service_ok R (E - {fd}) w'"
    using ok server_ok_update [OF _ em u] conn c by (simp add: service_ok_def)
next
  fix R E w fd c em w' e
  assume ok: "service_ok R E w" and em: "srv_eventManager (w_server w) = Some em"
    and u: "updateFd_call em fd (desired_interest c) w = (Some e, w')"
  note f = updateFd_call_cases [OF u em desired_interest(1)]
  have "app_ok R w'" using ok app_ok_cong [of w' w R] f by (simp add: service_ok_def)
  then show "service_ok R E w'"
    using ok server_ok_update [OF _ em u] by (simp add: service_ok_def)
next
  fix R E w fd c
  show "service_ok R E w \<Longrightarrow> findConnection w fd = Some c \<Longrightarrow> service_ok (insert fd R) (E - {fd}) (detach fd w)"
    by (simp add: service_ok_def server_ok_detach app_ok_detach)
  show "service_ok (insert fd R) E w \<Longrightarrow> fd \<notin> R \<Longrightarrow> service_ok R E (purge fd w)"
    using server_ok_cong [of "purge fd w" w E] by (simp add: service_ok_def app_ok_purge)
  show "service_ok (insert fd R) E w \<Longrightarrow> fd \<notin> R \<Longrightarrow> registry_find (clients w) fd = None \<Longrightarrow> service_ok R E w"
    by (auto simp: service_ok_def intro: app_ok_unknown)
qed

section \<open>The exact effect of a cascade on the application\<close>

text \<open>
  An abstract specification: whatever the order and depth of the failures, afterwards the
  application state is the state before, restricted to the clients that survived.
\<close>

definition restrict_channel :: "(fd \<Rightarrow> bool) \<Rightarrow> channel \<Rightarrow> channel" where
  "restrict_channel alive ch =
     ch\<lparr>ch_members := om_filter alive (ch_members ch), ch_operators := om_filter alive (ch_operators ch)\<rparr>"

definition alive :: "fd set \<Rightarrow> world \<Rightarrow> fd \<Rightarrow> bool" where
  "alive R w fd \<longleftrightarrow> findConnection w fd \<noteq> None \<or> fd \<in> R"

definition restricted :: "world \<Rightarrow> (fd \<Rightarrow> bool) \<Rightarrow> world \<Rightarrow> bool" where
  "restricted w0 live w \<longleftrightarrow>
     (\<forall>i. registry_find (clients w) i = (if live i then registry_find (clients w0) i else None)) \<and>
     (\<forall>n. om_get (channels w) n =
        (case om_get (channels w0) n of
           None \<Rightarrow> None
         | Some ch \<Rightarrow> if \<exists>m. hasMember ch m \<and> live m then Some (restrict_channel live ch) else None)) \<and>
     w_app w = (w_app w0)\<lparr>app_clients := clients w, app_channels := channels w\<rparr>"

lemma hasMember_restrict [simp]:
  "hasMember (restrict_channel f ch) m \<longleftrightarrow> f m \<and> hasMember ch m"
  "isOperator (restrict_channel f ch) m \<longleftrightarrow> f m \<and> isOperator ch m"
  by (auto simp: restrict_channel_def hasMember_def isOperator_def)

lemma om_filter_cong: "(\<And>k v. om_get m k = Some v \<Longrightarrow> f k = g k) \<Longrightarrow> om_filter f m = om_filter g m"
  by (rule om_eqI) (metis om_get_filter not_None_eq)

lemma om_filter_id: "(\<And>k v. om_get m k = Some v \<Longrightarrow> f k) \<Longrightarrow> om_filter f m = m"
  by (rule om_eqI) (metis om_get_filter not_None_eq)

lemma restrict_channel_id:
  assumes "\<And>m. hasMember ch m \<Longrightarrow> f m" and "channel_wf ch"
  shows "restrict_channel f ch = ch"
proof -
  have "om_filter f (ch_members ch) = ch_members ch"
    using assms(1) by (intro om_filter_id) (simp add: hasMember_def)
  moreover have "om_filter f (ch_operators ch) = ch_operators ch"
    using assms by (intro om_filter_id) (auto simp: channel_wf_def isOperator_def)
  ultimately show ?thesis by (simp add: restrict_channel_def)
qed

lemma removeMember_restrict:
  "removeMember (restrict_channel f ch) i = restrict_channel (\<lambda>m. m \<noteq> i \<and> f m) ch"
proof -
  have "om_del i (om_filter f s) = om_filter (\<lambda>m. m \<noteq> i \<and> f m) s" for s :: "fd oset"
    by (intro om_eqI) simp
  then show ?thesis by (simp add: removeMember_def restrict_channel_def)
qed

lemma restrict_channel_skip:
  assumes "channel_wf (restrict_channel f ch)" and "\<not> hasMember (restrict_channel f ch) i"
  shows "restrict_channel (\<lambda>m. m \<noteq> i \<and> f m) ch = restrict_channel f ch"
proof -
  have "om_filter (\<lambda>m. m \<noteq> i \<and> f m) (ch_members ch) = om_filter f (ch_members ch)"
    using assms(2) by (intro om_filter_cong) (auto simp: hasMember_def restrict_channel_def)
  moreover have "om_filter (\<lambda>m. m \<noteq> i \<and> f m) (ch_operators ch) = om_filter f (ch_operators ch)"
    using assms unfolding channel_wf_def hasMember_restrict
    by (intro om_filter_cong) (auto simp: isOperator_def)
  ultimately show ?thesis by (simp add: restrict_channel_def)
qed

lemma restricted_refl:
  assumes "service_ok R E w"
  shows "restricted w (alive R w) w"
proof -
  from assms have ok: "app_ok R w" by (simp add: service_ok_def)
  have reg: "registry_find (clients w) i \<noteq> None \<longleftrightarrow> alive R w i" for i
    using app_okD(3) [OF ok, of i] by (auto simp: alive_def)
  have "om_get (channels w) n =
      (case om_get (channels w) n of None \<Rightarrow> None
       | Some ch \<Rightarrow> if \<exists>m. hasMember ch m \<and> alive R w m then Some (restrict_channel (alive R w) ch) else None)" for n
  proof (cases "om_get (channels w) n")
    case (Some ch)
    note c = app_okD(5) [OF ok Some]
    have m: "hasMember ch m \<Longrightarrow> alive R w m" for m
      using c reg [of m] by (fastforce simp: channel_ok_def)
    have "restrict_channel (alive R w) ch = ch"
      using c by (intro restrict_channel_id m) (simp_all add: channel_ok_def)
    moreover have "\<exists>m. hasMember ch m \<and> alive R w m" using c m by (auto simp: channel_ok_def)
    ultimately show ?thesis by (simp add: Some)
  qed simp
  moreover have "registry_find (clients w) i = (if alive R w i then registry_find (clients w) i else None)" for i
    using reg [of i] by auto
  ultimately show ?thesis by (simp add: restricted_def)
qed

lemma restricted_cong:
  "w_app w' = w_app w \<Longrightarrow> restricted w0 live w' = restricted w0 live w"
  by (simp add: restricted_def)

lemma alive_cong: "om_dom (conns w') = om_dom (conns w) \<Longrightarrow> alive R w' = alive R w"
  by (auto simp: alive_def fun_eq_iff findConnection_def domIff [symmetric])

lemma alive_detach: "findConnection w fd = Some c \<Longrightarrow> alive (insert fd R) (detach fd w) = alive R w"
  by (auto simp: alive_def fun_eq_iff findConnection_detach)

lemma app_frame:
  fixes a b :: irc_application
  shows "a = b\<lparr>app_clients := app_clients a, app_channels := app_channels a\<rparr> \<Longrightarrow>
    a\<lparr>app_clients := r, app_channels := m\<rparr> = b\<lparr>app_clients := r, app_channels := m\<rparr>"
  by (cases a; cases b) simp

lemma restricted_purge:
  assumes ok: "service_ok (insert fd R) E w" and res: "restricted w0 (alive (insert fd R) w) w" and "fd \<notin> R"
  shows "restricted w0 (alive R (purge fd w)) (purge fd w)"
proof -
  let ?f = "alive (insert fd R) w" and ?g = "alive R (purge fd w)"
  have "findConnection w fd = None" using ok by (auto simp: service_ok_def dest: app_okD(4))
  then have g: "?g = (\<lambda>m. m \<noteq> fd \<and> ?f m)"
    using \<open>fd \<notin> R\<close> by (auto simp: alive_def findConnection_def fun_eq_iff)
  have "registry_find (clients (purge fd w)) i = (if ?g i then registry_find (clients w0) i else None)" for i
    using res by (auto simp: restricted_def find_erase g)
  moreover have "om_get (channels (purge fd w)) n =
      (case om_get (channels w0) n of None \<Rightarrow> None
       | Some ch \<Rightarrow> if \<exists>m. hasMember ch m \<and> ?g m then Some (restrict_channel ?g ch) else None)" for n
  proof (cases "om_get (channels w) n")
    case None
    with res show ?thesis
      by (auto simp: channels_purge restricted_def g split: option.splits if_splits)
  next
    case (Some ch')
    with res obtain ch where ch: "om_get (channels w0) n = Some ch" "ch' = restrict_channel ?f ch"
      by (auto simp: restricted_def split: option.splits if_splits)
    from ok Some have ok': "channel_ok (clients w) n ch'" by (auto simp: service_ok_def dest: app_okD(5))
    then have "restrict_channel ?g ch = (if hasMember ch' fd then removeMember ch' fd else ch')"
      using restrict_channel_skip [of ?f ch fd] by (auto simp: g ch(2) removeMember_restrict channel_ok_def)
    moreover have "(\<exists>m. hasMember ch m \<and> ?g m) \<longleftrightarrow> (if hasMember ch' fd then \<not> Channel_empty (removeMember ch' fd) else True)"
      using ok' by (auto simp: g ch(2) Channel_empty_iff channel_ok_def)
    ultimately show ?thesis by (simp add: channels_purge Some ch(1))
  qed
  moreover have "w_app (purge fd w) = (w_app w0)\<lparr>app_clients := clients (purge fd w), app_channels := channels (purge fd w)\<rparr>"
  proof -
    have "w_app (purge fd w) = (w_app w)\<lparr>app_clients := clients (purge fd w), app_channels := channels (purge fd w)\<rparr>"
      by (simp add: purge_def Let_def)
    with res show ?thesis unfolding restricted_def by (metis app_frame)
  qed
  ultimately show ?thesis by (simp add: restricted_def)
qed

interpretation restr: relay_invariant "\<lambda>R E w. service_ok R E w \<and> restricted w0 (alive R w) w" for w0
proof
  fix R E E' w fd c n fs
  show "service_ok R E w \<and> restricted w0 (alive R w) w \<Longrightarrow> E \<subseteq> E' \<Longrightarrow>
      service_ok R E' w \<and> restricted w0 (alive R w) w"
    using svc.mono by blast
  show "service_ok R E w \<and> restricted w0 (alive R w) w \<Longrightarrow> findConnection w fd = None \<Longrightarrow>
      service_ok R (E - {fd}) w \<and> restricted w0 (alive R w) w"
    using svc.absent by blast
  show "service_ok R E w \<and> restricted w0 (alive R w) w \<Longrightarrow> srv_onDisconnect (w_server w)"
    using svc.handler by blast
  show "service_ok R E w \<and> restricted w0 (alive R w) w \<Longrightarrow> findConnection w fd = Some c \<Longrightarrow>
      srv_eventManager (w_server w) \<noteq> None"
    using svc.manager by blast
  show "service_ok R E w \<and> restricted w0 (alive R w) w \<Longrightarrow> findConnection w fd = Some c \<Longrightarrow> cn_fd c = fd \<and> fd \<notin> R"
    using svc.owner by blast
  show "service_ok R E w \<and> restricted w0 (alive R w) w \<Longrightarrow> undisturbed w w' \<Longrightarrow>
      service_ok R E w' \<and> restricted w0 (alive R w') w'" for w'
    using svc.outside [of R E w w'] restricted_cong [of w' w w0] alive_cong [of w' w R] by (simp add: undisturbed_def)
next
  fix R E w fd c line
  assume *: "service_ok R E w \<and> restricted w0 (alive R w) w" "findConnection w fd = Some c"
  then show "service_ok R (insert fd E) (store_queued fd (queueLine c line) w) \<and>
      restricted w0 (alive R (store_queued fd (queueLine c line) w)) (store_queued fd (queueLine c line) w)"
    using svc.queue [of R E w fd c line] restricted_cong [of "store_queued fd (queueLine c line) w" w w0]
      alive_cong [of "store_queued fd (queueLine c line) w" w R]
    by (simp add: store_queued_effect findConnection_def insert_absorb domI)
next
  fix R E w fd c em w'
  assume *: "service_ok R E w \<and> restricted w0 (alive R w) w" "findConnection w fd = Some c"
    "\<not> (cn_closeRequested c \<and> \<not> wantsWrite c)" "srv_eventManager (w_server w) = Some em"
    "updateFd_call em fd (desired_interest c) w = (None, w')"
  note f = updateFd_call_cases [OF *(5,4) desired_interest(1)]
  from * svc.refresh [of R E w fd c em w']
  show "service_ok R (E - {fd}) w' \<and> restricted w0 (alive R w') w'"
    using restricted_cong [OF f(2)] alive_cong [of w' w R] f(1) by simp
next
  fix R E w fd c em w' e
  assume *: "service_ok R E w \<and> restricted w0 (alive R w) w" "srv_eventManager (w_server w) = Some em"
    "updateFd_call em fd (desired_interest c) w = (Some e, w')"
  note f = updateFd_call_cases [OF *(3,2) desired_interest(1)]
  from * svc.refresh_throws [of R E w em fd c e w']
  show "service_ok R E w' \<and> restricted w0 (alive R w') w'"
    using restricted_cong [OF f(2)] alive_cong [of w' w R] f(1) by simp
next
  fix R E w fd c
  show "service_ok R E w \<and> restricted w0 (alive R w) w \<Longrightarrow> findConnection w fd = Some c \<Longrightarrow>
      service_ok (insert fd R) (E - {fd}) (detach fd w) \<and> restricted w0 (alive (insert fd R) (detach fd w)) (detach fd w)"
    using svc.detach restricted_cong [OF detach_effect(1)] by (simp add: alive_detach)
  show "service_ok (insert fd R) E w \<and> restricted w0 (alive (insert fd R) w) w \<Longrightarrow> fd \<notin> R \<Longrightarrow>
      service_ok R E (purge fd w) \<and> restricted w0 (alive R (purge fd w)) (purge fd w)"
    using svc.purge restricted_purge by blast
  show "service_ok (insert fd R) E w \<and> restricted w0 (alive (insert fd R) w) w \<Longrightarrow> fd \<notin> R \<Longrightarrow>
      registry_find (clients w) fd = None \<Longrightarrow> service_ok R E w \<and> restricted w0 (alive R w) w"
    by (auto simp: service_ok_def dest!: app_okD(3) [of _ _ fd])
qed

end
