(* ===== verification/Delivery.thy ===== *)
theory Delivery
  imports Service
begin

text \<open>
  What a send does to the output queues: connections only gain output during a cascade, a
  successful \<open>sendTo\<close> changes nothing but its own connection, and a broadcast reaches every
  recipient that is still connected and not being closed.
\<close>

section \<open>Queues only grow\<close>

definition grown :: "connection \<Rightarrow> connection \<Rightarrow> bool" where
  "grown c c' \<longleftrightarrow>
     (\<exists>s. cn_writeBuffer c' = cn_writeBuffer c @ s) \<and> cn_writeOffset c' = cn_writeOffset c \<and>
     cn_readBuffer c' = cn_readBuffer c \<and> cn_fd c' = cn_fd c \<and> cn_peerAddress c' = cn_peerAddress c \<and>
     (cn_closeRequested c \<longrightarrow> cn_closeRequested c')"

definition queues_grown :: "world \<Rightarrow> world \<Rightarrow> bool" where
  "queues_grown w0 w \<longleftrightarrow>
     (\<forall>fd c'. findConnection w fd = Some c' \<longrightarrow> (\<exists>c. findConnection w0 fd = Some c \<and> grown c c'))"

lemma grown_refl [simp]: "grown c c"
  by (simp add: grown_def)

lemma grown_trans: "grown a b \<Longrightarrow> grown b c \<Longrightarrow> grown a c"
  by (auto simp: grown_def)

lemma queues_grown_refl [simp]: "queues_grown w w"
  by (simp add: queues_grown_def)

lemma queues_grown_trans: "queues_grown u v \<Longrightarrow> queues_grown v w \<Longrightarrow> queues_grown u w"
  unfolding queues_grown_def by (meson grown_trans)

lemma queueLine_grown: "queueLine c line = (q, c') \<Longrightarrow> grown c c'"
  by (auto simp: queueLine_def Let_def grown_def conn_requestClose_def split: if_splits)

lemma queues_grown_cong: "conns w' = conns w \<Longrightarrow> queues_grown w0 w' = queues_grown w0 w"
  by (simp add: queues_grown_def findConnection_def)

lemma queues_grown_shrink: "conns w' = om_del fd (conns w) \<Longrightarrow> queues_grown w0 w \<Longrightarrow> queues_grown w0 w'"
  by (auto simp: queues_grown_def findConnection_def split: if_splits)

lemma queues_grown_store:
  assumes "queues_grown w0 w" and "findConnection w fd = Some c" and "grown c c'"
    and "conns w' = om_put fd c' (conns w)"
  shows "queues_grown w0 w'"
  using assms by (auto simp: queues_grown_def findConnection_def split: if_splits intro: grown_trans) (meson grown_trans)

interpretation grow: relay_invariant "\<lambda>R E w. service_ok R E w \<and> queues_grown w0 w" for w0
proof
  fix R E E' w fd c n fs
  show "service_ok R E w \<and> queues_grown w0 w \<Longrightarrow> E \<subseteq> E' \<Longrightarrow> service_ok R E' w \<and> queues_grown w0 w"
    using svc.mono by blast
  show "service_ok R E w \<and> queues_grown w0 w \<Longrightarrow> findConnection w fd = None \<Longrightarrow>
      service_ok R (E - {fd}) w \<and> queues_grown w0 w"
    using svc.absent by blast
  show "service_ok R E w \<and> queues_grown w0 w \<Longrightarrow> srv_onDisconnect (w_server w)"
    using svc.handler by blast
  show "service_ok R E w \<and> queues_grown w0 w \<Longrightarrow> findConnection w fd = Some c \<Longrightarrow> srv_eventManager (w_server w) \<noteq> None"
    using svc.manager by blast
  show "service_ok R E w \<and> queues_grown w0 w \<Longrightarrow> findConnection w fd = Some c \<Longrightarrow> cn_fd c = fd \<and> fd \<notin> R"
    using svc.owner by blast
  show "service_ok R E w \<and> queues_grown w0 w \<Longrightarrow> undisturbed w w' \<Longrightarrow> service_ok R E w' \<and> queues_grown w0 w'" for w'
    using svc.outside [of R E w w'] queues_grown_cong [of w' w w0] by (simp add: undisturbed_def)
next
  fix R E w fd c line
  assume *: "service_ok R E w \<and> queues_grown w0 w" "findConnection w fd = Some c"
  then show "service_ok R (insert fd E) (store_queued fd (queueLine c line) w) \<and>
      queues_grown w0 (store_queued fd (queueLine c line) w)"
    using svc.queue [of R E w fd c line] queueLine_grown [of c line "fst (queueLine c line)" "snd (queueLine c line)"]
    by (auto intro!: queues_grown_store [of w0 w fd c "snd (queueLine c line)"])
next
  fix R E w fd c em w'
  assume *: "service_ok R E w \<and> queues_grown w0 w" "findConnection w fd = Some c"
    "\<not> (cn_closeRequested c \<and> \<not> wantsWrite c)" "srv_eventManager (w_server w) = Some em"
    "updateFd_call em fd (desired_interest c) w = (None, w')"
  with svc.refresh [of R E w fd c em w'] queues_grown_cong [OF updateFd_call_cases(1) [OF *(5,4) desired_interest(1)]]
  show "service_ok R (E - {fd}) w' \<and> queues_grown w0 w'" by simp
next
  fix R E w fd c em w' e
  assume *: "service_ok R E w \<and> queues_grown w0 w" "srv_eventManager (w_server w) = Some em"
    "updateFd_call em fd (desired_interest c) w = (Some e, w')"
  with svc.refresh_throws [of R E w em fd c e w'] queues_grown_cong [OF updateFd_call_cases(1) [OF *(3,2) desired_interest(1)]]
  show "service_ok R E w' \<and> queues_grown w0 w'" by simp
next
  fix R E w fd c
  show "service_ok R E w \<and> queues_grown w0 w \<Longrightarrow> findConnection w fd = Some c \<Longrightarrow>
      service_ok (insert fd R) (E - {fd}) (detach fd w) \<and> queues_grown w0 (detach fd w)"
    using svc.detach queues_grown_shrink [OF conns_detach] by blast
  show "service_ok (insert fd R) E w \<and> queues_grown w0 w \<Longrightarrow> fd \<notin> R \<Longrightarrow>
      service_ok R E (purge fd w) \<and> queues_grown w0 (purge fd w)"
    using svc.purge queues_grown_cong [OF conns_purge] by blast
  show "service_ok (insert fd R) E w \<and> queues_grown w0 w \<Longrightarrow> fd \<notin> R \<Longrightarrow>
      registry_find (clients w) fd = None \<Longrightarrow> service_ok R E w \<and> queues_grown w0 w"
    using svc.unknown by blast
qed

section \<open>A send that does not lose the connection touches nothing else\<close>

lemma refreshInterest_survives:
  assumes "refreshInterest fd w = (r, w')" and "findConnection w' fd = Some c"
  shows "findConnection w fd = Some c" and "conns w' = conns w" and "w_app w' = w_app w"
    and "srv_eventManager (w_server w) \<noteq> None \<Longrightarrow> r"
    and "\<not> (cn_closeRequested c \<and> \<not> wantsWrite c)" and "w_cerr w' = w_cerr w"
proof -
  have "\<exists>c0. findConnection w fd = Some c0"
    using assms by (cases "findConnection w fd") (auto simp: refreshInterest.simps)
  then obtain c0 where c0: "findConnection w fd = Some c0" by blast
  have open0: "\<not> (cn_closeRequested c0 \<and> \<not> wantsWrite c0)"
    using assms c0 disconnect_removes [of fd] by (auto simp: refreshInterest.simps split: if_splits)
  show "conns w' = conns w"
    using assms c0 open0 disconnect_removes [of fd]
    by (auto simp: refreshInterest.simps Let_def split: option.splits)
  with assms c0 show conn: "findConnection w fd = Some c" by (simp add: findConnection_def)
  with c0 open0 show "\<not> (cn_closeRequested c \<and> \<not> wantsWrite c)" by simp
  show "w_app w' = w_app w" "w_cerr w' = w_cerr w" "srv_eventManager (w_server w) \<noteq> None \<Longrightarrow> r"
    using assms c0 open0 disconnect_removes [of fd]
    by (auto simp: refreshInterest.simps Let_def updateFd_call_def set_manager_def split: option.splits prod.splits)
qed

lemma refreshInterest_True:
  assumes "refreshInterest fd w = (True, w')"
  obtains c where "findConnection w fd = Some c" and "findConnection w' fd = Some c"
  using assms
  by (auto simp: refreshInterest.simps Let_def findConnection_def split: option.splits if_splits)

lemma sendTo_survives:
  assumes "sendTo fd line w = (r, w')" and "findConnection w' fd = Some c'"
  obtains c where "findConnection w fd = Some c" and "c' = snd (queueLine c line)"
    and "conns w' = om_put fd c' (conns w)" and "w_app w' = w_app w"
    and "srv_eventManager (w_server w) \<noteq> None \<Longrightarrow> r = fst (queueLine c line)"
    and "\<not> (cn_closeRequested c' \<and> \<not> wantsWrite c')"
proof (cases "findConnection w fd")
  case None
  with assms show ?thesis by (auto simp: sendTo.simps)
next
  case (Some c)
  let ?w = "store_queued fd (queueLine c line) w"
  from assms(1) Some obtain b where b: "refreshInterest fd ?w = (b, w')" "r = (fst (queueLine c line) \<and> b)"
    by (auto simp: sendTo.simps split: prod.splits)
  note s = refreshInterest_survives [OF b(1) assms(2)]
  from s(1) have c': "c' = snd (queueLine c line)" by (simp add: findConnection_def)
  show ?thesis
    using Some c' s b(2) by (intro that [of c]) (auto simp: store_queued_effect)
qed

lemma sendTo_True_survives:
  assumes "sendTo fd line w = (True, w')"
  obtains c' where "findConnection w' fd = Some c'"
  using assms by (auto simp: sendTo.simps split: option.splits prod.splits elim!: refreshInterest_True)

text \<open>The form in which the command handlers use it: a send that succeeds leaves the application alone.\<close>

lemma sendTo_True:
  assumes "sendTo fd line w = (True, w')"
  shows "w_app w' = w_app w" and "om_dom (conns w') = om_dom (conns w)"
    and "g \<noteq> fd \<Longrightarrow> findConnection w' g = findConnection w g"
    and "\<exists>c. findConnection w fd = Some c \<and> findConnection w' fd = Some (snd (queueLine c line))"
proof -
  from assms obtain c' where s': "findConnection w' fd = Some c'" by (rule sendTo_True_survives)
  from sendTo_survives [OF assms s'] obtain c where
    c: "findConnection w fd = Some c" "c' = snd (queueLine c line)" "conns w' = om_put fd c' (conns w)"
      "w_app w' = w_app w"
    by metis
  show "w_app w' = w_app w" by (rule c(4))
  show "om_dom (conns w') = om_dom (conns w)" using c(1,3) by (auto simp: findConnection_def)
  show "findConnection w' g = findConnection w g" if "g \<noteq> fd" using c(3) that by (simp add: findConnection_def)
  show "\<exists>c. findConnection w fd = Some c \<and> findConnection w' fd = Some (snd (queueLine c line))"
    using c(1,2) s' by blast
qed

section \<open>Broadcasts\<close>

text \<open>The pending output of a connection contains a line as a whole, with its terminator.\<close>

definition carries :: "connection \<Rightarrow> string \<Rightarrow> bool" where
  "carries c line \<longleftrightarrow> (\<exists>a b. pending_text c = a @ take (lineEnd line (length line)) line @ crlf @ b)"

lemma pending_text_grown:
  assumes "grown c c'" and "cn_writeOffset c \<le> length (cn_writeBuffer c)"
  obtains s where "pending_text c' = pending_text c @ s"
  using assms by (auto simp: grown_def pending_text_def)

lemma carries_grown: "carries c line \<Longrightarrow> grown c c' \<Longrightarrow> cn_writeOffset c \<le> length (cn_writeBuffer c) \<Longrightarrow> carries c' line"
  unfolding carries_def by (metis append.assoc pending_text_grown)

lemma queueLine_carries:
  assumes "queueLine c line = (q, c')" and "cn_writeOffset c \<le> length (cn_writeBuffer c)"
  shows "cn_closeRequested c' \<or> carries c' line"
proof (cases "cn_closeRequested c'")
  case False
  with assms have "pending_text c' = pending_text c @ take (lineEnd line (length line)) line @ crlf @ []"
    by (auto simp: queueLine_def Let_def pending_text_def conn_requestClose_def split: if_splits)
  then show ?thesis unfolding carries_def by blast
qed simp

lemma sendTo_carries:
  assumes ok: "service_ok R E w" and "findConnection (snd (sendTo fd line w)) fd = Some c'"
  shows "cn_closeRequested c' \<or> carries c' line"
proof -
  obtain r w' where s: "sendTo fd line w = (r, w')" by fastforce
  with assms(2) have "findConnection w' fd = Some c'" by simp
  from sendTo_survives [OF s this] obtain c where
    c: "findConnection w fd = Some c" "c' = snd (queueLine c line)" by metis
  from ok have "server_ok E w" by (simp add: service_ok_def)
  from server_okD(3) [OF this c(1)] queueLine_carries [of c line "fst (queueLine c line)" c'] c(2)
  show ?thesis by simp
qed

lemma grown_delivered:
  assumes "cn_closeRequested c \<or> carries c line" and "grown c c'" and "cn_writeOffset c \<le> length (cn_writeBuffer c)"
  shows "cn_closeRequested c' \<or> carries c' line"
  using assms carries_grown by (auto simp: grown_def)

lemma sendEach_grows: "service_ok R E w \<Longrightarrow> queues_grown w (sendEach ps line w)"
  using grow.sendEach [of R E w w ps line] by simp

lemma sendTo_grows: "service_ok R E w \<Longrightarrow> queues_grown w (snd (sendTo fd line w))"
  using grow.sendTo_keeps [of R E w w fd line] by simp

lemma sendEach_delivers:
  assumes "service_ok R E w" and "p \<in> set ps" and "findConnection (sendEach ps line w) p = Some c'"
  shows "cn_closeRequested c' \<or> carries c' line"
  using assms
proof (induction ps arbitrary: w)
  case (Cons q ps)
  let ?w = "snd (sendTo q line w)"
  have ok: "service_ok R E ?w" using Cons.prems(1) by (rule svc.sendTo_keeps)
  show ?case
  proof (cases "p \<in> set ps")
    case True
    with Cons ok show ?thesis by simp
  next
    case False
    with Cons.prems(2) have "p = q" by simp
    from sendEach_grows [OF ok, of ps line] Cons.prems(3) obtain c where
      c: "findConnection ?w p = Some c" "grown c c'"
      by (auto simp: queues_grown_def)
    moreover have "cn_writeOffset c \<le> length (cn_writeBuffer c)"
      using ok c(1) by (auto simp: service_ok_def dest: server_okD(3))
    ultimately show ?thesis
      using sendTo_carries [OF Cons.prems(1), of q line c] \<open>p = q\<close> grown_delivered by blast
  qed
qed simp

lemma sendTo_no_loss:
  assumes "om_dom (conns (snd (sendTo p line w))) = om_dom (conns w)"
  shows "w_app (snd (sendTo p line w)) = w_app w"
    and "findConnection (snd (sendTo p line w)) fd =
      (if fd = p then map_option (\<lambda>c. snd (queueLine c line)) (findConnection w p) else findConnection w fd)"
proof -
  obtain r w' where s: "sendTo p line w = (r, w')" by fastforce
  have "w_app w' = w_app w \<and> findConnection w' fd =
      (if fd = p then map_option (\<lambda>c. snd (queueLine c line)) (findConnection w p) else findConnection w fd)"
  proof (cases "findConnection w p")
    case None
    with s show ?thesis by (auto simp: sendTo.simps)
  next
    case (Some c0)
    with assms s obtain c' where c': "findConnection w' p = Some c'"
      by (auto simp: findConnection_def dest: equalityD2)
    from sendTo_survives [OF s c'] obtain c where
      "findConnection w p = Some c" "c' = snd (queueLine c line)" "conns w' = om_put p c' (conns w)" "w_app w' = w_app w"
      by metis
    then show ?thesis by (simp add: findConnection_def)
  qed
  with s show "w_app (snd (sendTo p line w)) = w_app w"
    and "findConnection (snd (sendTo p line w)) fd =
      (if fd = p then map_option (\<lambda>c. snd (queueLine c line)) (findConnection w p) else findConnection w fd)"
    by simp_all
qed

text \<open>A broadcast that costs no connection adds its line once to every recipient and changes nothing else.\<close>

lemma sendEach_exact:
  assumes "om_dom (conns (sendEach ps line w)) = om_dom (conns w)" and "distinct ps"
  shows "w_app (sendEach ps line w) = w_app w \<and>
    findConnection (sendEach ps line w) fd =
      (if fd \<in> set ps then map_option (\<lambda>c. snd (queueLine c line)) (findConnection w fd) else findConnection w fd)"
  using assms
proof (induction ps arbitrary: w)
  case (Cons p ps)
  let ?w = "snd (sendTo p line w)"
  have dom: "om_dom (conns ?w) = om_dom (conns w)" "om_dom (conns (sendEach ps line ?w)) = om_dom (conns ?w)"
    using Cons.prems(1) cascade_dom(1) [of p line w] cascade_dom(6) [of ps line ?w] by auto
  with Cons.IH [of ?w] Cons.prems(2) sendTo_no_loss [OF dom(1)] show ?case by auto
qed simp

end
