(* ===== verification/Scenario.thy ===== *)
theory Scenario
  imports Service
begin

text \<open>
  A concrete state of the running server, used to evaluate the definitions: two registered clients,
  alice on descriptor 4 and bob on descriptor 5, share the channel \<open>#a\<close>; alice is its operator.
\<close>

definition member_state :: "fd \<Rightarrow> string \<Rightarrow> client_state" where
  "member_state fd nick = ClientState\<lparr>cs_fd := fd, cs_passOk := True, cs_hasUser := True, cs_registered := True,
     cs_user := nick, cs_host := ''127.0.0.1''\<rparr>"

definition two_clients :: client_registry where
  "two_clients =
     setNickname (setNickname (registry_set (registry_set ClientRegistry 4 (member_state 4 ''alice'')) 5
       (member_state 5 ''bob'')) 4 ''alice'') 5 ''bob''"

definition room :: channel where
  "room = addMember (addMember (Channel 0 ''#a'') 4 True) 5 False"

definition chat :: world where
  "chat =
     \<lparr>w_server =
        \<lparr>srv_config = ServerConfig, srv_listenFd = 3,
         srv_eventManager = Some (EpollEventManager
           (om_put 3 ReadInterest (om_put 4 ReadInterest (om_put 5 ReadInterest om_empty)))),
         srv_connections = om_put 4 (Connection 4 ''127.0.0.1:5004'' 512 1048576)
           (om_put 5 (Connection 5 ''127.0.0.1:5005'' 512 1048576) om_empty),
         srv_running = True, srv_stopRequested = False,
         srv_metrics = \<lparr>acceptedConnections = 2, closedConnections = 0, linesReceived = 6, outboundQueueDrops = 0\<rparr>,
         srv_onConnect = True, srv_onLine = True, srv_onDisconnect = True, srv_onError = True\<rparr>,
      w_app =
        \<lparr>app_password = ''secret'', app_runtime = RuntimeConfig, app_serverName = ''irc.relay.local'',
         app_clients = two_clients, app_channels = om_put ''#a'' room om_empty,
         app_metrics = \<lparr>commandsHandled = 6, messagesRelayed = 0, roomsCreated = 1, rateLimitedClients = 0,
                        idleTimeouts = 0, heartbeatPings = 0\<rparr>,
         app_nextHeartbeatToken = 0\<rparr>,
      w_os =
        \<lparr>os_strerror = (\<lambda>_. ''error''), os_ctl = \<lparr>ck_script = [], ck_log = []\<rparr>,
         os_recv = (\<lambda>_. []), os_send = (\<lambda>_. []), os_accept = [], os_calls = [], os_platform = Linux,
         os_socket = Inr 3, os_inet_pton = (\<lambda>_. True), os_boundPort = 6667, os_wait = [], os_waits = [],
         os_now = 0, os_ticks = [], os_time = 0, os_output = [], os_closed = []\<rparr>,
      w_cerr = [], w_fault = False\<rparr>"

lemma find_ClientRegistry: "registry_find ClientRegistry fd = None"
  by (simp add: registry_find_def ClientRegistry_def)

lemma find_two_clients:
  "registry_find two_clients fd =
     (if fd = 4 then Some ((member_state 4 ''alice'')\<lparr>cs_nick := ''alice'', cs_hasNick := True\<rparr>)
      else if fd = 5 then Some ((member_state 5 ''bob'')\<lparr>cs_nick := ''bob'', cs_hasNick := True\<rparr>) else None)"
  by (simp add: two_clients_def find_setNickname find_set find_ClientRegistry)

lemma two_clients_inv: "registry_inv two_clients"
proof -
  let ?r = "registry_set (registry_set ClientRegistry 4 (member_state 4 ''alice'')) 5 (member_state 5 ''bob'')"
  have none: "cs_nick (member_state fd n) = []" for fd n by (simp add: member_state_def ClientState_def)
  have "registry_inv (registry_set ClientRegistry 4 (member_state 4 ''alice''))"
    by (rule registry_set_fresh_inv) (simp_all add: none find_ClientRegistry)
  then have "registry_inv ?r"
    by (rule registry_set_fresh_inv) (simp_all add: none find_set find_ClientRegistry)
  moreover have "findFdByNickname ?r ''alice'' = -1" by code_simp
  ultimately have "registry_inv (setNickname ?r 4 ''alice'')" by (intro setNickname_inv) simp_all
  moreover have "findFdByNickname (setNickname ?r 4 ''alice'') ''bob'' = -1" by code_simp
  ultimately show ?thesis unfolding two_clients_def by (simp add: setNickname_inv)
qed

lemma chat_ok: "service_ok {} {} chat"
proof -
  have names: "isValidNickname ''alice''" "isValidNickname ''bob''" "isValidName ''#a''" by code_simp+
  have conn: "findConnection chat fd = (if fd = 4 then Some (Connection 4 ''127.0.0.1:5004'' 512 1048576)
      else if fd = 5 then Some (Connection 5 ''127.0.0.1:5005'' 512 1048576) else None)" for fd
    by (simp add: findConnection_def chat_def)
  have idle: "\<not> cn_closeRequested (Connection i a l m)" "\<not> wantsWrite (Connection i a l m)"
    "cn_writeOffset (Connection i a l m) \<le> length (cn_writeBuffer (Connection i a l m))"
    "cn_fd (Connection i a l m) = i" for i a l m
    by (simp_all add: Connection_def wantsWrite_def)
  have "interest_of chat 4 = Some ReadInterest" "interest_of chat 5 = Some ReadInterest"
    by (simp_all add: interest_of_def chat_def)
  then have "attended chat 4 (Connection 4 a l m)" "attended chat 5 (Connection 5 a l m)" for a l m
    by (simp_all add: attended_def idle)
  moreover have "connectionCount chat = 2" by code_simp
  ultimately have "server_ok {} chat"
    by (auto simp: server_ok_def conn idle) (simp_all add: chat_def)
  moreover have "clients chat = two_clients" "om_get (channels chat) n = (if n = ''#a'' then Some room else None)" for n
    by (simp_all add: chat_def)
  then have "app_ok {} chat"
    using names two_clients_inv
    by (auto simp: app_ok_def conn find_two_clients client_ok_def member_state_def ClientState_def
        channel_ok_def room_def split: if_splits)
  ultimately show ?thesis by (simp add: service_ok_def)
qed

end
