(* ===== verification/Support.thy ===== *)
theory Support
  imports Delivery
begin

text \<open>
  \<^verbatim>\<open>src/src/ApplicationSupport.cpp\<close>: the helpers that the command handlers share: splitting
  target lists, numeric replies, channel lookup, broadcasts, leaving channels.
\<close>

section \<open>Strings\<close>

text \<open>\<open>splitComma\<close> on the part of the string that starts at the loop's \<open>start\<close>.\<close>

function splitFrom :: "string \<Rightarrow> string list" where
  "splitFrom rest =
     (case str_find (CHR '','') rest of
        None \<Rightarrow> (if rest \<noteq> [] then [rest] else [])
      | Some comma \<Rightarrow> (if comma > 0 then [take comma rest] else []) @ splitFrom (drop (comma + 1) rest))"
  by pat_completeness auto
termination
  by (relation "measure length") (auto dest: str_find_SomeD)

definition splitComma :: "string \<Rightarrow> string list" where
  "splitComma value = splitFrom value"

definition isChannelTarget :: "string \<Rightarrow> bool" where
  "isChannelTarget target \<longleftrightarrow> target \<noteq> [] \<and> (target ! 0 = CHR ''#'' \<or> target ! 0 = CHR ''&'')"

fun joinWords :: "string list \<Rightarrow> string \<Rightarrow> string" where
  "joinWords [] separator = []"
| "joinWords [v] separator = v"
| "joinWords (v # v' # vs) separator = v @ separator @ joinWords (v' # vs) separator"

section \<open>Replies\<close>

definition sendRaw :: "fd \<Rightarrow> string \<Rightarrow> world \<Rightarrow> bool \<times> world" where
  "sendRaw fd line w = sendTo fd line w"

definition sendNumeric :: "fd \<Rightarrow> int \<Rightarrow> string list \<Rightarrow> string \<Rightarrow> world \<Rightarrow> bool \<times> world" where
  "sendNumeric fd numericCode params trailing w =
     sendRaw fd (numeric (app_serverName (w_app w)) (replyTarget w fd) numericCode params trailing) w"

definition sendNumericRaw :: "fd \<Rightarrow> int \<Rightarrow> string list \<Rightarrow> world \<Rightarrow> bool \<times> world" where
  "sendNumericRaw fd numericCode params w =
     sendRaw fd (formatMessage (app_serverName (w_app w)) (code numericCode) (replyTarget w fd # params)) w"

definition requestClose :: "fd \<Rightarrow> string \<Rightarrow> world \<Rightarrow> world" where
  "requestClose fd reason w =
     (case findConnection w fd of
        None \<Rightarrow> w
      | Some connection \<Rightarrow> set_conns (om_put fd (conn_requestClose connection reason) (conns w)) w)"

section \<open>Channels\<close>

definition ensureChannel :: "string \<Rightarrow> world \<Rightarrow> channel \<times> world" where
  "ensureChannel name w =
     (case om_get (channels w) name of
        Some ch \<Rightarrow> (ch, w)
      | None \<Rightarrow>
          (let ch = Channel (os_time (w_os w)) name;
               w1 = set_channels (om_put name ch (channels w)) w;
               w2 = count_app (\<lambda>m. m\<lparr>roomsCreated := roomsCreated m + 1\<rparr>) w1
           in (ch, logEvent ''room_created'' [(''name'', name)] w2)))"

definition findChannelForCommand :: "fd \<Rightarrow> string \<Rightarrow> bool \<Rightarrow> world \<Rightarrow> channel option \<times> world" where
  "findChannelForCommand fd name requireMembership w =
     (case om_get (channels w) name of
        None \<Rightarrow> (None, snd (sendNumeric fd 403 [name] ''No such channel'' w))
      | Some ch \<Rightarrow>
          if requireMembership \<and> \<not> hasMember ch fd
          then (None, snd (sendNumeric fd 442 [name] ''You're not on that channel'' w))
          else (Some ch, w))"

definition sendTopicReply :: "fd \<Rightarrow> channel \<Rightarrow> world \<Rightarrow> bool \<times> world" where
  "sendTopicReply fd ch w =
     (if ch_hasTopic ch then sendNumeric fd 332 [ch_name ch] (ch_topic ch) w
      else sendNumeric fd 331 [ch_name ch] ''No topic is set'' w)"

text \<open>The nicknames of the members that have a client state, operators marked with \<open>@\<close>.\<close>

definition nameList :: "client_registry \<Rightarrow> channel \<Rightarrow> string list" where
  "nameList reg ch =
     concat (map (\<lambda>m. case registry_find reg m of
                        None \<Rightarrow> []
                      | Some client \<Rightarrow> [(if isOperator ch m then ''@'' else []) @ cs_nick client]) (members ch))"

definition sendNames :: "fd \<Rightarrow> channel \<Rightarrow> world \<Rightarrow> bool \<times> world" where
  "sendNames fd ch w =
     (case sendNumeric fd 353 [''='', ch_name ch] (joinWords (nameList (clients w) ch) '' '') w of
        (False, w1) \<Rightarrow> (False, w1)
      | (True, w1) \<Rightarrow> sendNumeric fd 366 [ch_name ch] ''End of /NAMES list'' w1)"

definition eraseChannelIfEmpty :: "string \<Rightarrow> world \<Rightarrow> world" where
  "eraseChannelIfEmpty channelName w =
     (case om_get (channels w) channelName of
        Some ch \<Rightarrow> if Channel_empty ch then set_channels (om_del channelName (channels w)) w else w
      | None \<Rightarrow> w)"

section \<open>Broadcasts\<close>

definition broadcastToChannel :: "string \<Rightarrow> string \<Rightarrow> fd \<Rightarrow> world \<Rightarrow> world" where
  "broadcastToChannel channelName line exceptFd w =
     (case om_get (channels w) channelName of
        None \<Rightarrow> w
      | Some ch \<Rightarrow> sendEach (filter (\<lambda>m. m \<noteq> exceptFd) (members ch)) line w)"

definition broadcastMode :: "fd \<Rightarrow> channel \<Rightarrow> string \<Rightarrow> string \<Rightarrow> world \<Rightarrow> bool \<times> world" where
  "broadcastMode fd ch mode arg w =
     (let channelName = ch_name ch;
          params = [channelName, mode] @ (if arg \<noteq> [] then [arg] else []);
          w1 = broadcastToChannel channelName (formatMessage (prefixFor w fd) ''MODE'' params) (-1) w
      in (registry_contains (clients w1) fd \<and> om_has (channels w1) channelName, w1))"

definition common_targets :: "(string, channel) omap \<Rightarrow> fd \<Rightarrow> fd oset" where
  "common_targets chans fd =
     fold (\<lambda>(name, ch) targets. if \<not> hasMember ch fd then targets else os_insert_all (members ch) targets)
       (om_entries chans) os_empty"

definition broadcastToCommon :: "fd \<Rightarrow> string \<Rightarrow> bool \<Rightarrow> world \<Rightarrow> world" where
  "broadcastToCommon fd line includeSelf w =
     (let targets = common_targets (channels w) fd;
          targets = (if \<not> includeSelf then os_erase fd targets else targets)
      in sendEach (om_keys targets) line w)"

section \<open>Leaving\<close>

text \<open>Removing one member and the channel with it when it was the last one.\<close>

definition dropMember :: "string \<Rightarrow> fd \<Rightarrow> world \<Rightarrow> world" where
  "dropMember channelName fd w =
     (case om_get (channels w) channelName of
        None \<Rightarrow> w
      | Some ch \<Rightarrow> eraseChannelIfEmpty channelName (set_channels (om_put channelName (removeMember ch fd) (channels w)) w))"

definition partChannel :: "fd \<Rightarrow> string \<Rightarrow> string \<Rightarrow> world \<Rightarrow> world" where
  "partChannel fd channelName reason w =
     (case om_get (channels w) channelName of
        None \<Rightarrow> snd (sendNumeric fd 403 [channelName] ''No such channel'' w)
      | Some ch \<Rightarrow>
          if \<not> hasMember ch fd then snd (sendNumeric fd 442 [channelName] ''You're not on that channel'' w)
          else
            (let params = [channelName] @ (if reason \<noteq> [] then [reason] else []);
                 w1 = broadcastToChannel channelName (formatMessage (prefixFor w fd) ''PART'' params) (-1) w
             in dropMember channelName fd w1))"

definition partAllChannels :: "fd \<Rightarrow> string \<Rightarrow> world \<Rightarrow> world" where
  "partAllChannels fd reason w =
     fold (\<lambda>channelName w. partChannel fd channelName reason w)
       (map fst (filter (\<lambda>(name, ch). hasMember ch fd) (om_entries (channels w)))) w"

section \<open>Metrics\<close>

definition handleMetrics :: "fd \<Rightarrow> world \<Rightarrow> world" where
  "handleMetrics fd w =
     (let sm = srv_metrics (w_server w); am = app_metrics (w_app w);
          out = ''connections='' @ show_nat (connectionCount w) @
                '' accepted='' @ show_size (acceptedConnections sm) @
                '' closed='' @ show_size (closedConnections sm) @
                '' rooms='' @ show_nat (om_size (channels w)) @
                '' commands='' @ show_size (commandsHandled am) @
                '' messages='' @ show_size (messagesRelayed am) @
                '' queue_drops='' @ show_size (outboundQueueDrops sm) @
                '' rate_limited='' @ show_size (rateLimitedClients am)
      in snd (sendRaw fd (formatMessage (app_serverName (w_app w)) ''NOTICE'' [replyTarget w fd, out]) w))"

declare splitFrom.simps [simp del]

section \<open>Replies keep every reply invariant\<close>

text \<open>
  A predicate that survives the send cascade and the direct changes the commands make to counters and
  close requests survives every reply and broadcast.  \<open>E\<close> contains the descriptors for which a close
  may be requested without refreshing the interest at once.
\<close>

lemma requestClose_frame [simp]:
  "w_app (requestClose fd r w) = w_app w" "w_fault (requestClose fd r w) = w_fault w" "w_os (requestClose fd r w) = w_os w"
  "om_dom (conns (requestClose fd r w)) = om_dom (conns w)"
  "srv_onConnect (w_server (requestClose fd r w)) = srv_onConnect (w_server w)"
  "srv_eventManager (w_server (requestClose fd r w)) = srv_eventManager (w_server w)"
  by (auto simp: requestClose_def findConnection_def split: option.splits)

lemma dropMember_eq:
  "dropMember n fd w =
     (case om_get (channels w) n of
        None \<Rightarrow> w
      | Some ch \<Rightarrow>
          if Channel_empty (removeMember ch fd) then set_channels (om_del n (channels w)) w
          else set_channels (om_put n (removeMember ch fd) (channels w)) w)"
proof -
  have "om_del n (om_put n v m) = om_del n m" for v and m :: "(string, channel) omap"
    by (rule om_eqI) simp
  then show ?thesis by (simp add: dropMember_def eraseChannelIfEmpty_def split: option.splits)
qed

lemma service_channelD: "service_ok R E w \<Longrightarrow> om_get (channels w) n = Some ch \<Longrightarrow> channel_ok (clients w) n ch"
  by (auto simp: service_ok_def dest: app_okD(5))

locale reply_invariant = relay_invariant +
  assumes sound: "P R E w \<Longrightarrow> service_ok R E w"
    and counting: "P R E w \<Longrightarrow> P R E (count_app f w)"
    and closing: "P R E w \<Longrightarrow> fd \<in> E \<Longrightarrow> P R E (requestClose fd r w)"
    and send_closing: "P R E w \<Longrightarrow> P R E (requestClose fd r (snd (sendTo fd line w)))"
begin

lemma sendRaw: "P R E w \<Longrightarrow> P R E (snd (sendRaw fd line w))"
  unfolding sendRaw_def by (rule sendTo_keeps)

lemma sendNumeric: "P R E w \<Longrightarrow> P R E (snd (sendNumeric fd n ps t w))"
  unfolding sendNumeric_def by (rule sendRaw)

lemma sendNumericRaw: "P R E w \<Longrightarrow> P R E (snd (sendNumericRaw fd n ps w))"
  unfolding sendNumericRaw_def by (rule sendRaw)

lemma sendTopicReply: "P R E w \<Longrightarrow> P R E (snd (sendTopicReply fd ch w))"
  by (simp add: sendTopicReply_def sendNumeric)

lemma sendNames:
  assumes "P R E w"
  shows "P R E (snd (sendNames fd ch w))"
proof -
  have "P R E (snd (sendNumeric fd 353 [''='', ch_name ch] (joinWords (nameList (clients w) ch) '' '') w))"
    using assms by (rule sendNumeric)
  then show ?thesis
    by (auto simp: sendNames_def sendNumeric split: prod.splits bool.splits)
qed

lemma broadcastToChannel: "P R E w \<Longrightarrow> P R E (broadcastToChannel n line x w)"
  by (simp add: broadcastToChannel_def sendEach split: option.splits)

lemma broadcastMode: "P R E w \<Longrightarrow> P R E (snd (broadcastMode fd ch m a w))"
  by (simp add: broadcastMode_def Let_def broadcastToChannel)

lemma broadcastToCommon: "P R E w \<Longrightarrow> P R E (broadcastToCommon fd line s w)"
  by (simp add: broadcastToCommon_def Let_def sendEach)

lemma findChannelForCommand: "P R E w \<Longrightarrow> P R E (snd (findChannelForCommand fd n m w))"
  by (simp add: findChannelForCommand_def sendNumeric split: option.splits)

lemma handleMetrics: "P R E w \<Longrightarrow> P R E (handleMetrics fd w)"
  by (simp add: handleMetrics_def Let_def sendRaw)

lemma foldInv: "P R E w \<Longrightarrow> (\<And>x w. P R E w \<Longrightarrow> P R E (f x w)) \<Longrightarrow> P R E (fold f xs w)"
  by (induction xs arbitrary: w) simp_all

end

text \<open>A predicate that survives every change of a channel that leaves it well-formed.\<close>

locale command_invariant = reply_invariant +
  assumes put_channel: "P R E w \<Longrightarrow> channel_ok (clients w) n ch \<Longrightarrow> P R E (set_channels (om_put n ch (channels w)) w)"
    and del_channel: "P R E w \<Longrightarrow> P R E (set_channels (om_del n (channels w)) w)"
begin

lemma dropMember:
  assumes ok: "P R E w"
  shows "P R E (dropMember n fd w)"
proof (cases "om_get (channels w) n")
  case None
  with ok show ?thesis by (simp add: dropMember_eq)
next
  case (Some ch)
  from service_channelD [OF sound [OF ok] Some]
  have "\<not> Channel_empty (removeMember ch fd) \<Longrightarrow> channel_ok (clients w) n (removeMember ch fd)"
    by (auto simp: channel_ok_def Channel_empty_iff)
  with ok show ?thesis
    by (simp add: dropMember_eq Some put_channel del_channel)
qed

end

section \<open>The service invariant is a command invariant\<close>

lemma service_ok_count_app [simp]: "service_ok R E (count_app f w) = service_ok R E w"
  unfolding service_ok_def
  using server_ok_cong [of "count_app f w" w E] app_ok_cong [of "count_app f w" w R] by simp

lemma service_requestClose:
  assumes ok: "service_ok R E w" and "fd \<in> E"
  shows "service_ok R E (requestClose fd r w)"
proof (cases "findConnection w fd")
  case None
  with ok show ?thesis by (simp add: requestClose_def)
next
  case (Some c)
  from ok have s: "server_ok E w" by (simp add: service_ok_def)
  have "server_ok (insert fd E) (requestClose fd r w)"
    by (rule server_ok_replace [OF s Some, of "conn_requestClose c r"])
       (use server_okD [OF s Some] Some in \<open>auto simp: requestClose_def conn_requestClose_def same_setup_def\<close>)
  moreover have "app_ok R (requestClose fd r w)"
    using ok app_ok_cong [of "requestClose fd r w" w R] by (simp add: service_ok_def)
  ultimately show ?thesis using \<open>fd \<in> E\<close> by (simp add: service_ok_def insert_absorb)
qed

text \<open>
  The timers request the close of a connection outside the event that serves it.  This is sound
  because they queue a line first: the connection then still has output, or it is gone.
\<close>

lemma service_unstale:
  assumes "service_ok R (insert fd E) w" and "\<And>c. findConnection w fd = Some c \<Longrightarrow> fd \<notin> E \<Longrightarrow> attended w fd c"
  shows "service_ok R E w"
proof -
  have "attended w g c" if "findConnection w g = Some c" "g \<notin> E" for g c
    using assms that by (cases "g = fd") (auto simp: service_ok_def server_ok_def)
  with assms(1) show ?thesis by (auto simp: service_ok_def server_ok_def)
qed

lemma service_send_close:
  assumes ok: "service_ok R E w"
  shows "service_ok R E (requestClose fd r (snd (sendTo fd line w)))"
proof -
  let ?w1 = "snd (sendTo fd line w)" and ?w2 = "requestClose fd r (snd (sendTo fd line w))"
  have ok1: "service_ok R E ?w1" using ok by (rule svc.sendTo_keeps)
  show ?thesis
  proof (cases "findConnection ?w1 fd")
    case None
    with ok1 show ?thesis by (simp add: requestClose_def)
  next
    case (Some c')
    obtain b where "sendTo fd line w = (b, ?w1)" by (metis prod.collapse)
    from sendTo_survives [OF this Some] obtain c where
      c: "findConnection w fd = Some c" "c' = snd (queueLine c line)" "\<not> (cn_closeRequested c' \<and> \<not> wantsWrite c')"
      by metis
    from ok have s: "server_ok E w" by (simp add: service_ok_def)
    have writes: "wantsWrite c'"
      using c(2,3) queueLine_frame(4) [of c line "fst (queueLine c line)" c'] server_okD(3) [OF s c(1)]
      by (cases "fst (queueLine c line)") (auto simp: queueLine_def Let_def conn_requestClose_def split: if_splits)
    have "service_ok R (insert fd E) ?w2"
      by (rule service_requestClose) (rule svc.mono [OF ok1], auto)
    moreover have "attended ?w2 fd (conn_requestClose c' r)" if "fd \<notin> E"
    proof -
      from ok1 that Some have "attended ?w1 fd c'" by (auto simp: service_ok_def dest: server_okD(5))
      then show ?thesis
        using writes by (auto simp: attended_def interest_of_def conn_requestClose_def wantsWrite_def)
    qed
    moreover have "findConnection ?w2 fd = Some (conn_requestClose c' r)"
      using Some by (simp add: requestClose_def findConnection_def)
    ultimately show ?thesis by - (rule service_unstale [of R fd], auto)
  qed
qed

text \<open>A step that leaves the server object alone only has to keep the application invariant.\<close>

lemma service_app_step:
  assumes "service_ok R E w" and "w_server w' = w_server w" and "w_fault w' = w_fault w" and "app_ok R w'"
  shows "service_ok R E w'"
  using assms server_ok_cong [of w' w E] by (simp add: service_ok_def)

lemma app_ok_put_channel:
  assumes "app_ok R w" and "channel_ok (clients w) n ch"
  shows "app_ok R (set_channels (om_put n ch (channels w)) w)"
  using assms by (auto simp: app_ok_def findConnection_def)

lemma app_ok_del_channel: "app_ok R w \<Longrightarrow> app_ok R (set_channels (om_del n (channels w)) w)"
  by (auto simp: app_ok_def findConnection_def split: if_splits)

interpretation cmd: command_invariant service_ok
proof
  fix R E w f fd r n ch
  show "service_ok R E w \<Longrightarrow> service_ok R E w" .
  show "service_ok R E w \<Longrightarrow> service_ok R E (count_app f w)" by simp
  show "service_ok R E w \<Longrightarrow> fd \<in> E \<Longrightarrow> service_ok R E (requestClose fd r w)" by (rule service_requestClose)
  show "service_ok R E w \<Longrightarrow> service_ok R E (requestClose fd r (snd (sendTo fd line w)))" for line
    by (rule service_send_close)
  show "service_ok R E w \<Longrightarrow> channel_ok (clients w) n ch \<Longrightarrow> service_ok R E (set_channels (om_put n ch (channels w)) w)"
    by (rule service_app_step) (simp_all add: service_ok_def app_ok_put_channel)
  show "service_ok R E w \<Longrightarrow> service_ok R E (set_channels (om_del n (channels w)) w)"
    by (rule service_app_step) (simp_all add: service_ok_def app_ok_del_channel)
qed

section \<open>Predicates on the application state\<close>

text \<open>
  Whatever only looks at the application object and survives the removal of a client is an invariant
  of the cascade; if it ignores the counters it is a reply invariant, and if it ignores the channels too it
  is a command invariant.
\<close>

locale app_predicate =
  fixes Q :: "irc_application \<Rightarrow> bool"
  assumes purging: "Q (w_app w) \<Longrightarrow> Q (w_app (purge fd w))"
begin

abbreviation held :: "fd set \<Rightarrow> fd set \<Rightarrow> world \<Rightarrow> bool" where
  "held R E w \<equiv> service_ok R E w \<and> Q (w_app w)"

end

sublocale app_predicate \<subseteq> held: relay_invariant held
proof
  fix R E E' w fd c n fs
  show "held R E w \<Longrightarrow> E \<subseteq> E' \<Longrightarrow> held R E' w" using svc.mono by blast
  show "held R E w \<Longrightarrow> findConnection w fd = None \<Longrightarrow> held R (E - {fd}) w" using svc.absent by blast
  show "held R E w \<Longrightarrow> srv_onDisconnect (w_server w)" using svc.handler by blast
  show "held R E w \<Longrightarrow> findConnection w fd = Some c \<Longrightarrow> srv_eventManager (w_server w) \<noteq> None"
    using svc.manager by blast
  show "held R E w \<Longrightarrow> findConnection w fd = Some c \<Longrightarrow> cn_fd c = fd \<and> fd \<notin> R" using svc.owner by blast
  show "held R E w \<Longrightarrow> undisturbed w w' \<Longrightarrow> held R E w'" for w'
    using svc.outside [of R E w w'] by (simp add: undisturbed_def)
next
  fix R E w fd c line
  show "held R E w \<Longrightarrow> findConnection w fd = Some c \<Longrightarrow> held R (insert fd E) (store_queued fd (queueLine c line) w)"
    by (simp add: svc.queue store_queued_effect)
next
  fix R E w fd c em w'
  assume *: "held R E w" "findConnection w fd = Some c" "\<not> (cn_closeRequested c \<and> \<not> wantsWrite c)"
    "srv_eventManager (w_server w) = Some em" "updateFd_call em fd (desired_interest c) w = (None, w')"
  then show "held R (E - {fd}) w'"
    using svc.refresh [of R E w fd c em w'] updateFd_call_cases(2) [OF *(5,4) desired_interest(1)] by simp
next
  fix R E w fd c em w' e
  assume *: "held R E w" "srv_eventManager (w_server w) = Some em"
    "updateFd_call em fd (desired_interest c) w = (Some e, w')"
  then show "held R E w'"
    using svc.refresh_throws [of R E w em fd c e w'] updateFd_call_cases(2) [OF *(3,2) desired_interest(1)] by simp
next
  fix R E w fd c
  show "held R E w \<Longrightarrow> findConnection w fd = Some c \<Longrightarrow> held (insert fd R) (E - {fd}) (detach fd w)"
    by (simp add: svc.detach detach_effect(1))
  show "held (insert fd R) E w \<Longrightarrow> fd \<notin> R \<Longrightarrow> held R E (purge fd w)"
    by (simp add: svc.purge purging)
  show "held (insert fd R) E w \<Longrightarrow> fd \<notin> R \<Longrightarrow> registry_find (clients w) fd = None \<Longrightarrow> held R E w"
    using svc.unknown by blast
qed

locale counter_predicate = app_predicate +
  assumes counter_free: "Q a \<Longrightarrow> Q (a\<lparr>app_metrics := k\<rparr>)"

sublocale counter_predicate \<subseteq> answered: reply_invariant held
proof
  fix R E w f fd r
  show "held R E w \<Longrightarrow> service_ok R E w" by simp
  show "held R E w \<Longrightarrow> held R E (count_app f w)" by (simp add: counter_free)
  show "held R E w \<Longrightarrow> fd \<in> E \<Longrightarrow> held R E (requestClose fd r w)" by (simp add: cmd.closing)
  show "held R E w \<Longrightarrow> held R E (requestClose fd r (snd (sendTo fd line w)))" for line
    using held.sendTo_keeps [of R E w fd line] by (simp add: cmd.send_closing)
qed

locale client_predicate = counter_predicate +
  assumes channel_free: "Q a \<Longrightarrow> Q (a\<lparr>app_channels := m\<rparr>)"

sublocale client_predicate \<subseteq> kept: command_invariant held
proof
  fix R E w n ch
  show "held R E w \<Longrightarrow> channel_ok (clients w) n ch \<Longrightarrow> held R E (set_channels (om_put n ch (channels w)) w)"
    by (simp add: cmd.put_channel channel_free)
  show "held R E w \<Longrightarrow> held R E (set_channels (om_del n (channels w)) w)"
    by (simp add: cmd.del_channel channel_free)
qed

section \<open>Changing a client\<close>

lemma app_ok_set_client:
  assumes ok: "app_ok R w" and st: "registry_find (clients w) fd = Some st"
    and st': "client_ok fd st'" "cs_nick st' = cs_nick st" "cs_registered st \<Longrightarrow> cs_registered st'"
  shows "app_ok R (set_clients (registry_set (clients w) fd st') w)"
proof -
  have "channel_ok (registry_set (clients w) fd st') n ch" if "channel_ok (clients w) n ch" for n ch
    using that st st'(3) by (fastforce simp: channel_ok_def find_set)
  moreover have "registry_inv (registry_set (clients w) fd st')"
    using app_okD(1) [OF ok] st st'(2) by (rule registry_set_inv)
  ultimately show ?thesis
    using ok st st'(1) by (auto simp: app_ok_def find_set findConnection_def)
qed

lemma service_set_client:
  assumes "service_ok R E w" and "registry_find (clients w) fd = Some st"
    and "client_ok fd st'" "cs_nick st' = cs_nick st" "cs_registered st \<Longrightarrow> cs_registered st'"
  shows "service_ok R E (set_clients (registry_set (clients w) fd st') w)"
  using assms by (intro service_app_step [OF assms(1)]) (simp_all add: service_ok_def app_ok_set_client)

lemma app_ok_setNickname:
  assumes ok: "app_ok R w" and st: "registry_find (clients w) fd = Some st"
    and n: "isValidNickname n" and free: "findFdByNickname (clients w) n \<in> {-1, fd}"
  shows "app_ok R (set_clients (setNickname (clients w) fd n) w)"
proof -
  from ok st have fd: "0 \<le> fd" and c: "client_ok fd st"
    by (auto dest: app_okD(1,2) registry_invD(2))
  from n have ne: "n \<noteq> []" by (rule isValidNickname_nonempty)
  have inv: "registry_inv (setNickname (clients w) fd n)"
    using app_okD(1) [OF ok] ne fd free by (rule setNickname_inv)
  have "channel_ok (setNickname (clients w) fd n) m ch" if "channel_ok (clients w) m ch" for m ch
    using that st by (fastforce simp: channel_ok_def find_setNickname)
  with ok st c n ne inv show ?thesis
    by (auto simp: app_ok_def find_setNickname findConnection_def client_ok_def split: if_splits)
qed

lemma service_setNickname:
  assumes "service_ok R E w" and "registry_find (clients w) fd = Some st"
    and "isValidNickname n" and "findFdByNickname (clients w) n \<in> {-1, fd}"
  shows "service_ok R E (set_clients (setNickname (clients w) fd n) w)"
  using assms by (intro service_app_step [OF assms(1)]) (simp_all add: service_ok_def app_ok_setNickname)

lemma service_client_ok: "service_ok R E w \<Longrightarrow> registry_find (clients w) fd = Some st \<Longrightarrow> client_ok fd st"
  by (auto simp: service_ok_def dest: app_okD(2))

lemma service_client_of_conn:
  assumes "service_ok R E w" and "findConnection w fd = Some c"
  obtains st where "registry_find (clients w) fd = Some st" and "client_ok fd st"
  using assms by (auto simp: service_ok_def dest: app_okD(2) app_okD(3) [of _ _ fd])

end
