(* ===== verification/Commands.thy ===== *)
theory Commands
  imports Support
begin

text \<open>
  \<^verbatim>\<open>src/src/MessagingCommands.cpp\<close> and \<^verbatim>\<open>src/src/ChannelCommands.cpp\<close>: the handlers of PRIVMSG, JOIN,
  PART, TOPIC, KICK, INVITE, MODE, LIST and NAMES.  A pointer into \<open>_channels\<close> that a handler keeps
  across a send is looked up again by its key when it is dereferenced; where the source does so
  without a check of its own, a missing entry raises \<open>w_fault\<close>.
\<close>

section \<open>Loops with early return\<close>

text \<open>A loop whose body returns from the function when it yields \<open>False\<close>.\<close>

fun loop_each :: "('a \<Rightarrow> world \<Rightarrow> bool \<times> world) \<Rightarrow> 'a list \<Rightarrow> world \<Rightarrow> bool \<times> world" where
  "loop_each body [] w = (True, w)"
| "loop_each body (x # xs) w =
     (case body x w of
        (True, w') \<Rightarrow> loop_each body xs w'
      | (False, w') \<Rightarrow> (False, w'))"

section \<open>PRIVMSG\<close>

definition relayed :: "world \<Rightarrow> world" where
  "relayed w = count_app (\<lambda>m. m\<lparr>messagesRelayed := messagesRelayed m + 1\<rparr>) w"

definition privmsgTarget :: "fd \<Rightarrow> string \<Rightarrow> string \<Rightarrow> world \<Rightarrow> world" where
  "privmsgTarget fd text target w =
     (if isChannelTarget target then
        (case om_get (channels w) target of
           None \<Rightarrow> snd (sendNumeric fd 404 [target] ''Cannot send to channel'' w)
         | Some ch \<Rightarrow>
             if \<not> hasMember ch fd then snd (sendNumeric fd 404 [target] ''Cannot send to channel'' w)
             else relayed (broadcastToChannel target (formatMessage (prefixFor w fd) ''PRIVMSG'' [target, text]) fd w))
      else
        (let targetFd = findNick w target in
         if targetFd = -1 then snd (sendNumeric fd 401 [target] ''No such nick/channel'' w)
         else relayed (snd (sendRaw targetFd (formatMessage (prefixFor w fd) ''PRIVMSG'' [target, text]) w))))"

definition handlePrivmsg :: "fd \<Rightarrow> irc_message \<Rightarrow> world \<Rightarrow> world" where
  "handlePrivmsg fd message w =
     (let params = msg_params message in
      if params = [] then snd (sendNumeric fd 411 [] ''No recipient given (PRIVMSG)'' w)
      else if length params < 2 \<or> params ! 1 = [] then snd (sendNumeric fd 412 [] ''No text to send'' w)
      else fold (\<lambda>target w. privmsgTarget fd (params ! 1) target w) (splitComma (params ! 0)) w)"

section \<open>JOIN and PART\<close>

definition joinChannel :: "fd \<Rightarrow> string \<Rightarrow> world \<Rightarrow> bool \<times> world" where
  "joinChannel fd name w =
     (if \<not> isValidName name then sendNumeric fd 403 [name] ''No such channel'' w
      else
        (case ensureChannel name w of
           (channel, w1) \<Rightarrow>
             if hasMember channel fd then sendNames fd channel w1
             else
               (case registry_find (clients w1) fd of
                  None \<Rightarrow> (False, w1)
                | Some client \<Rightarrow>
                    if ch_inviteOnly channel \<and> \<not> isInvited channel (cs_nick client)
                    then sendNumeric fd 473 [name] ''Cannot join channel (+i)'' w1
                    else
                      (let firstMember = Channel_empty channel;
                           channel' = clearInvite (addMember channel fd firstMember) (cs_nick client);
                           w2 = set_channels (om_put name channel' (channels w1)) w1;
                           w3 = broadcastToChannel name (formatMessage (prefixFor w2 fd) ''JOIN'' [name]) (-1) w2
                       in if \<not> registry_contains (clients w3) fd then (False, w3)
                          else
                            (case om_get (channels w3) name of
                               None \<Rightarrow> (False, w3)
                             | Some current \<Rightarrow>
                                 (case sendTopicReply fd current w3 of
                                    (False, w4) \<Rightarrow> (False, w4)
                                  | (True, w4) \<Rightarrow>
                                      (case om_get (channels w4) name of
                                         None \<Rightarrow> (False, w4)
                                       | Some current \<Rightarrow> sendNames fd current w4)))))))"

definition handleJoin :: "fd \<Rightarrow> irc_message \<Rightarrow> world \<Rightarrow> world" where
  "handleJoin fd message w =
     (let params = msg_params message in
      if params = [] then snd (sendNumeric fd 461 [''JOIN''] ''Not enough parameters'' w)
      else if params ! 0 = ''0'' then partAllChannels fd ''Leaving all channels'' w
      else snd (loop_each (joinChannel fd) (splitComma (params ! 0)) w))"

definition handlePart :: "fd \<Rightarrow> irc_message \<Rightarrow> world \<Rightarrow> world" where
  "handlePart fd message w =
     (let params = msg_params message in
      if params = [] then snd (sendNumeric fd 461 [''PART''] ''Not enough parameters'' w)
      else
        (let reason = (if length params > 1 then params ! 1 else []) in
         fold (\<lambda>name w. partChannel fd name reason w) (splitComma (params ! 0)) w))"

section \<open>TOPIC, KICK and INVITE\<close>

definition handleTopic :: "fd \<Rightarrow> irc_message \<Rightarrow> world \<Rightarrow> world" where
  "handleTopic fd message w =
     (let params = msg_params message in
      if params = [] then snd (sendNumeric fd 461 [''TOPIC''] ''Not enough parameters'' w)
      else
        (case findChannelForCommand fd (params ! 0) True w of
           (None, w1) \<Rightarrow> w1
         | (Some channel, w1) \<Rightarrow>
             if length params = 1 then snd (sendTopicReply fd channel w1)
             else if ch_topicProtected channel \<and> \<not> isOperator channel fd
             then snd (sendNumeric fd 482 [ch_name channel] ''You're not channel operator'' w1)
             else
               (let w2 = set_channels (om_put (params ! 0) (setTopic channel (params ! 1)) (channels w1)) w1 in
                broadcastToChannel (ch_name channel)
                  (formatMessage (prefixFor w2 fd) ''TOPIC'' [ch_name channel, params ! 1]) (-1) w2)))"

definition handleKick :: "fd \<Rightarrow> irc_message \<Rightarrow> world \<Rightarrow> world" where
  "handleKick fd message w =
     (let params = msg_params message in
      if length params < 2 then snd (sendNumeric fd 461 [''KICK''] ''Not enough parameters'' w)
      else
        (case findChannelForCommand fd (params ! 0) True w of
           (None, w1) \<Rightarrow> w1
         | (Some channel, w1) \<Rightarrow>
             if \<not> isOperator channel fd
             then snd (sendNumeric fd 482 [ch_name channel] ''You're not channel operator'' w1)
             else
               (let channelName = ch_name channel;
                    targetNick = params ! 1;
                    targetFd = findNick w1 targetNick
                in if targetFd = -1 then snd (sendNumeric fd 401 [targetNick] ''No such nick/channel'' w1)
                   else if \<not> hasMember channel targetFd
                   then snd (sendNumeric fd 441 [targetNick, channelName] ''They aren't on that channel'' w1)
                   else
                     (let comment = (if length params > 2 then params ! 2 else targetNick);
                          w2 = broadcastToChannel channelName
                                 (formatMessage (prefixFor w1 fd) ''KICK'' [channelName, targetNick, comment]) (-1) w1
                      in dropMember channelName targetFd w2))))"

definition handleInvite :: "fd \<Rightarrow> irc_message \<Rightarrow> world \<Rightarrow> world" where
  "handleInvite fd message w =
     (let params = msg_params message in
      if length params < 2 then snd (sendNumeric fd 461 [''INVITE''] ''Not enough parameters'' w)
      else
        (let targetNick = params ! 0;
             channelName = params ! 1;
             targetFd = findNick w targetNick
         in if targetFd = -1 then snd (sendNumeric fd 401 [targetNick] ''No such nick/channel'' w)
            else
              (case findChannelForCommand fd channelName True w of
                 (None, w1) \<Rightarrow> w1
               | (Some channel, w1) \<Rightarrow>
                   if ch_inviteOnly channel \<and> \<not> isOperator channel fd
                   then snd (sendNumeric fd 482 [channelName] ''You're not channel operator'' w1)
                   else if hasMember channel targetFd
                   then snd (sendNumeric fd 443 [targetNick, channelName] ''is already on channel'' w1)
                   else
                     (let w2 = set_channels (om_put channelName (invite channel targetNick) (channels w1)) w1;
                          acknowledgement = formatMessage (app_serverName (w_app w2)) ''341''
                            [replyTarget w2 fd, targetNick, channelName];
                          invitation = formatMessage (prefixFor w2 fd) ''INVITE'' [targetNick, channelName];
                          w3 = snd (sendRaw fd acknowledgement w2)
                      in snd (sendRaw targetFd invitation w3)))))"

section \<open>MODE\<close>

definition modeSign :: "bool \<Rightarrow> string" where
  "modeSign adding = (if adding then ''+'' else ''-'')"

text \<open>
  The iteration for one mode letter other than a sign: whether the loop goes on, the next argument
  index and the new state.
\<close>

definition applyMode ::
  "fd \<Rightarrow> string \<Rightarrow> (channel \<Rightarrow> channel) \<Rightarrow> string \<Rightarrow> string \<Rightarrow> world \<Rightarrow> bool \<times> world"
where
  "applyMode fd channelName change mode arg w =
     (case om_get (channels w) channelName of
        None \<Rightarrow> (False, w\<lparr>w_fault := True\<rparr>)
      | Some ch \<Rightarrow> broadcastMode fd (change ch) mode arg (set_channels (om_put channelName (change ch) (channels w)) w))"

definition operatorMode :: "fd \<Rightarrow> string \<Rightarrow> bool \<Rightarrow> string \<Rightarrow> world \<Rightarrow> bool \<times> world" where
  "operatorMode fd channelName adding nick w =
     (let targetFd = findNick w nick;
          refuse = sendNumeric fd 441 [nick, channelName] ''They aren't on that channel'' w
      in case registry_find (clients w) targetFd of
           None \<Rightarrow> refuse
         | Some targetClient \<Rightarrow>
             (case om_get (channels w) channelName of
                None \<Rightarrow> (False, w\<lparr>w_fault := True\<rparr>)
              | Some ch \<Rightarrow>
                  if \<not> hasMember ch targetFd then refuse
                  else applyMode fd channelName (\<lambda>ch. setOperator ch targetFd adding) (modeSign adding @ ''o'')
                         (cs_nick targetClient) w))"

definition modeStep :: "fd \<Rightarrow> string list \<Rightarrow> string \<Rightarrow> bool \<Rightarrow> nat \<Rightarrow> char \<Rightarrow> world \<Rightarrow> nat \<times> bool \<times> world" where
  "modeStep fd params channelName adding argIndex mode w =
     (if mode = CHR ''i''
      then (argIndex, applyMode fd channelName (\<lambda>ch. setInviteOnly ch adding) (modeSign adding @ ''i'') [] w)
      else if mode = CHR ''t''
      then (argIndex, applyMode fd channelName (\<lambda>ch. setTopicProtected ch adding) (modeSign adding @ ''t'') [] w)
      else if mode = CHR ''o'' then
        (if argIndex \<ge> length params
         then (argIndex, sendNumeric fd 461 [''MODE''] ''Not enough parameters'' w)
         else (argIndex + 1, operatorMode fd channelName adding (params ! argIndex) w))
      else (argIndex, sendNumeric fd 472 [[mode]] ''is unknown mode char to me'' w))"

fun modeLoop :: "fd \<Rightarrow> string list \<Rightarrow> string \<Rightarrow> bool \<Rightarrow> nat \<Rightarrow> string \<Rightarrow> world \<Rightarrow> world" where
  "modeLoop fd params channelName adding argIndex [] w = w"
| "modeLoop fd params channelName adding argIndex (mode # modes) w =
     (if mode = CHR ''+'' then modeLoop fd params channelName True argIndex modes w
      else if mode = CHR ''-'' then modeLoop fd params channelName False argIndex modes w
      else
        (case modeStep fd params channelName adding argIndex mode w of
           (argIndex', True, w') \<Rightarrow> modeLoop fd params channelName adding argIndex' modes w'
         | (_, False, w') \<Rightarrow> w'))"

definition handleChannelMode :: "fd \<Rightarrow> irc_message \<Rightarrow> world \<Rightarrow> world" where
  "handleChannelMode fd message w =
     (let params = msg_params message in
      case findChannelForCommand fd (params ! 0) False w of
        (None, w1) \<Rightarrow> w1
      | (Some channel, w1) \<Rightarrow>
          (let channelName = ch_name channel in
           if length params = 1 then snd (sendNumericRaw fd 324 [channelName, modeString channel] w1)
           else if \<not> hasMember channel fd
           then snd (sendNumeric fd 442 [channelName] ''You're not on that channel'' w1)
           else if \<not> isOperator channel fd
           then snd (sendNumeric fd 482 [channelName] ''You're not channel operator'' w1)
           else modeLoop fd params channelName True 2 (params ! 1) w1))"

definition handleMode :: "fd \<Rightarrow> irc_message \<Rightarrow> world \<Rightarrow> world" where
  "handleMode fd message w =
     (let params = msg_params message in
      if params = [] then snd (sendNumeric fd 461 [''MODE''] ''Not enough parameters'' w)
      else if isChannelTarget (params ! 0) then handleChannelMode fd message w
      else
        (let targetFd = findNick w (params ! 0) in
         if targetFd = -1 then snd (sendNumeric fd 401 [params ! 0] ''No such nick/channel'' w)
         else if length params = 1 then snd (sendNumericRaw fd 221 [''+''] w)
         else if targetFd \<noteq> fd then snd (sendNumeric fd 502 [] ''Cannot change mode for other users'' w)
         else snd (sendNumeric fd 501 [] ''User modes are not implemented'' w)))"

section \<open>LIST and NAMES\<close>

text \<open>
  The loops run over the map itself; a reply that succeeds leaves it unchanged and one that fails
  ends the loop, so iterating over the entries at the start is the same.
\<close>

definition listChannel :: "fd \<Rightarrow> string oset \<Rightarrow> string \<times> channel \<Rightarrow> world \<Rightarrow> bool \<times> world" where
  "listChannel fd requested entry w =
     (case entry of
        (name, ch) \<Rightarrow>
          if om_size requested \<noteq> 0 \<and> \<not> os_mem name requested then (True, w)
          else sendNumeric fd 322 [name, show_nat (memberCount ch)]
                 (if ch_hasTopic ch then ch_topic ch else ''open room'') w)"

definition handleList :: "fd \<Rightarrow> irc_message \<Rightarrow> world \<Rightarrow> world" where
  "handleList fd message w =
     (let params = msg_params message;
          requested = (if params \<noteq> [] then os_insert_all (splitComma (params ! 0)) os_empty else os_empty)
      in case sendNumericRaw fd 321 [''Channel'', ''Users'', ''Name''] w of
           (False, w1) \<Rightarrow> w1
         | (True, w1) \<Rightarrow>
             (case loop_each (listChannel fd requested) (om_entries (channels w1)) w1 of
                (False, w2) \<Rightarrow> w2
              | (True, w2) \<Rightarrow> snd (sendNumeric fd 323 [] ''End of /LIST'' w2)))"

definition namesChannel :: "fd \<Rightarrow> string \<Rightarrow> world \<Rightarrow> bool \<times> world" where
  "namesChannel fd name w =
     (case om_get (channels w) name of
        Some ch \<Rightarrow> sendNames fd ch w
      | None \<Rightarrow> sendNumeric fd 366 [name] ''End of /NAMES list'' w)"

definition handleNames :: "fd \<Rightarrow> irc_message \<Rightarrow> world \<Rightarrow> world" where
  "handleNames fd message w =
     (let params = msg_params message in
      if params = [] then snd (loop_each (\<lambda>(name, ch). sendNames fd ch) (om_entries (channels w)) w)
      else snd (loop_each (namesChannel fd) (splitComma (params ! 0)) w))"

section \<open>Shared facts\<close>

lemma loop_each_inv:
  assumes "I w" and "\<And>x w. I w \<Longrightarrow> S (snd (body x w))" and "\<And>x w w'. I w \<Longrightarrow> body x w = (True, w') \<Longrightarrow> I w'"
    and "\<And>w. I w \<Longrightarrow> S w"
  shows "S (snd (loop_each body xs w))" and "loop_each body xs w = (True, w') \<Longrightarrow> I w'"
proof -
  have "S (snd (loop_each body xs w)) \<and> (\<forall>w'. loop_each body xs w = (True, w') \<longrightarrow> I w')"
    using assms(1)
  proof (induction xs arbitrary: w)
    case (Cons x xs)
    obtain b w1 where b: "body x w = (b, w1)" by fastforce
    with Cons assms(2) [OF Cons.prems, of x] assms(3) [OF Cons.prems, of x w1] show ?case
      by (cases b) auto
  qed (simp add: assms(4))
  then show "S (snd (loop_each body xs w))" "loop_each body xs w = (True, w') \<Longrightarrow> I w'" by auto
qed

text \<open>A reply that was queued leaves the application state and the recipient in place.\<close>

lemma sendNumeric_True:
  "sendNumeric fd n ps t w = (True, w') \<Longrightarrow> w_app w' = w_app w \<and> findConnection w' fd \<noteq> None"
  unfolding sendNumeric_def sendRaw_def using sendTo_True(1,4) by fastforce

lemma sendNumericRaw_True:
  "sendNumericRaw fd n ps w = (True, w') \<Longrightarrow> w_app w' = w_app w \<and> findConnection w' fd \<noteq> None"
  unfolding sendNumericRaw_def sendRaw_def using sendTo_True(1,4) by fastforce

lemma sendTopicReply_True:
  "sendTopicReply fd ch w = (True, w') \<Longrightarrow> w_app w' = w_app w \<and> findConnection w' fd \<noteq> None"
  by (auto simp: sendTopicReply_def split: if_splits dest: sendNumeric_True)

lemma sendNames_True:
  "sendNames fd ch w = (True, w') \<Longrightarrow> w_app w' = w_app w \<and> findConnection w' fd \<noteq> None"
  by (auto simp: sendNames_def split: prod.splits bool.splits dest!: sendNumeric_True)

lemma broadcastMode_True:
  "broadcastMode fd ch m a w = (True, w') \<Longrightarrow> om_has (channels w') (ch_name ch)"
  by (auto simp: broadcastMode_def Let_def)

lemma findChannel_Some:
  assumes "findChannelForCommand fd n m w = (Some ch, w')"
  shows "w' = w" and "om_get (channels w) n = Some ch" and "m \<Longrightarrow> hasMember ch fd"
  using assms by (auto simp: findChannelForCommand_def split: option.splits if_splits)

lemma channel_ok_update:
  assumes "channel_ok reg n ch"
  shows "channel_ok reg n (setInviteOnly ch b)" and "channel_ok reg n (setTopicProtected ch b)"
    and "channel_ok reg n (setTopic ch t)" and "channel_ok reg n (invite ch nick)"
    and "channel_ok reg n (setOperator ch i b)"
  using assms by (auto simp: channel_ok_def)

lemma channel_ok_join:
  assumes "isValidName n" and "ch = Channel t n \<or> channel_ok reg n ch"
    and "registry_find reg fd = Some st" and "cs_registered st"
  shows "channel_ok reg n (clearInvite (addMember ch fd b) nick)"
  using assms by (auto simp: channel_ok_def)

lemma ensureChannel_cases:
  assumes "ensureChannel n w = (ch, w1)"
  obtains (old) "om_get (channels w) n = Some ch" and "w1 = w"
    | (new) t f nm fs where "ch = Channel t n" and "om_get (channels w) n = None"
        and "w1 = logEvent nm fs (count_app f (set_channels (om_put n ch (channels w)) w))"
  using assms by (auto simp: ensureChannel_def Let_def split: option.splits)

lemma om_put_put [simp]: "om_put k v (om_put k u m) = om_put k v m"
  by (rule om_eqI) simp

lemma new_room_eq:
  "set_channels (om_put n v (channels (logEvent nm fs (count_app f (set_channels (om_put n u (channels w)) w)))))
     (logEvent nm fs (count_app f (set_channels (om_put n u (channels w)) w))) =
   logEvent nm fs (count_app f (set_channels (om_put n v (channels w)) w))"
  by (simp add: logEvent_def)

definition registered_as :: "fd \<Rightarrow> world \<Rightarrow> bool" where
  "registered_as fd w \<longleftrightarrow> (\<exists>st. registry_find (clients w) fd = Some st \<and> cs_registered st)"

text \<open>The channels in which a client may act as an operator are among those of \<open>authority\<close>.\<close>

definition empowered :: "fd \<Rightarrow> (string \<Rightarrow> bool) \<Rightarrow> world \<Rightarrow> bool" where
  "empowered fd authority w \<longleftrightarrow> (\<forall>n ch. om_get (channels w) n = Some ch \<and> isOperator ch fd \<longrightarrow> authority n)"

lemma empowered_True [simp]: "empowered fd (\<lambda>_. True) w"
  by (simp add: empowered_def)

section \<open>The handlers keep every channel invariant\<close>

text \<open>
  The changes that the commands of one client, the \<open>actor\<close>, make to the channels.  \<open>authority\<close> names the
  channels whose modes and members it may change: nothing but joining as the channel allows, leaving, and
  what the channel leaves open to every member is possible without it.
\<close>

locale channel_invariant = reply_invariant +
  fixes actor :: fd and authority :: "string \<Rightarrow> bool"
  assumes joined: "P R E w \<Longrightarrow> ensureChannel n w = (ch, w1) \<Longrightarrow> isValidName n \<Longrightarrow>
      registry_find (clients w) actor = Some st \<Longrightarrow> cs_registered st \<Longrightarrow> \<not> hasMember ch actor \<Longrightarrow>
      (ch_inviteOnly ch \<Longrightarrow> isInvited ch (cs_nick st)) \<Longrightarrow>
      P R E (set_channels (om_put n (clearInvite (addMember ch actor (Channel_empty ch)) (cs_nick st)) (channels w1)) w1)"
    and left: "P R E w \<Longrightarrow> P R E (dropMember n actor w)"
    and expelled: "P R E w \<Longrightarrow> authority n \<Longrightarrow> P R E (dropMember n x w)"
    and retitled: "P R E w \<Longrightarrow> om_get (channels w) n = Some ch \<Longrightarrow> (ch_topicProtected ch \<Longrightarrow> authority n) \<Longrightarrow>
      P R E (set_channels (om_put n (setTopic ch t) (channels w)) w)"
    and welcomed: "P R E w \<Longrightarrow> om_get (channels w) n = Some ch \<Longrightarrow> (ch_inviteOnly ch \<Longrightarrow> authority n) \<Longrightarrow>
      P R E (set_channels (om_put n (invite ch nick) (channels w)) w)"
    and reformed: "P R E w \<Longrightarrow> om_get (channels w) n = Some ch \<Longrightarrow> authority n \<Longrightarrow>
      change = (\<lambda>ch. setInviteOnly ch b) \<or> change = (\<lambda>ch. setTopicProtected ch b) \<or>
        (\<exists>x. hasMember ch x \<and> change = (\<lambda>ch. setOperator ch x b)) \<Longrightarrow>
      P R E (set_channels (om_put n (change ch) (channels w)) w)"
begin

lemma partChannel: "P R E w \<Longrightarrow> P R E (partChannel actor n r w)"
  by (auto simp: partChannel_def Let_def split: option.splits intro: sendNumeric left broadcastToChannel)

lemma partAllChannels: "P R E w \<Longrightarrow> P R E (partAllChannels actor r w)"
  by (auto simp: partAllChannels_def intro!: foldInv partChannel)

lemma joinChannel:
  assumes ok: "P R E w" and c: "registered_as actor w"
  shows "P R E (snd (joinChannel actor n w))"
proof (cases "isValidName n")
  case False
  with ok show ?thesis by (simp add: joinChannel_def sendNumeric)
next
  case True
  obtain ch w1 where e: "ensureChannel n w = (ch, w1)" by fastforce
  have keep: "clients w1 = clients w" using e by (cases rule: ensureChannel_cases) simp_all
  from c obtain st where st: "registry_find (clients w) actor = Some st" "cs_registered st"
    by (auto simp: registered_as_def)
  let ?w2 = "set_channels (om_put n (clearInvite (addMember ch actor (Channel_empty ch)) (cs_nick st)) (channels w1)) w1"
  let ?w3 = "broadcastToChannel n (formatMessage (prefixFor ?w2 actor) ''JOIN'' [n]) (-1) ?w2"
  have reply: "P R E ?w3 \<Longrightarrow> P R E (snd (case sendTopicReply actor cur ?w3 of (False, w4) \<Rightarrow> (False, w4)
      | (True, w4) \<Rightarrow> (case om_get (channels w4) n of None \<Rightarrow> (False, w4) | Some cur \<Rightarrow> sendNames actor cur w4)))" for cur
    using sendTopicReply [of R E ?w3 actor cur] by (auto split: prod.splits bool.splits option.splits intro: sendNames)
  have old: "P R E w1" if "hasMember ch actor \<or> ch_inviteOnly ch"
    using e that ok by (cases rule: ensureChannel_cases) (auto simp: Channel_def hasMember_def)
  show ?thesis
  proof (cases "hasMember ch actor \<or> ch_inviteOnly ch \<and> \<not> isInvited ch (cs_nick st)")
    case True
    with old \<open>isValidName n\<close> e st keep show ?thesis by (auto simp: joinChannel_def intro: sendNames sendNumeric)
  next
    case False
    then have "P R E ?w2" by (intro joined [OF ok e \<open>isValidName n\<close> st]) auto
    then have "P R E ?w3" by (rule broadcastToChannel)
    with reply False \<open>isValidName n\<close> e st keep show ?thesis
      by (auto simp: joinChannel_def Let_def split: option.splits)
  qed
qed

lemma after_find:
  assumes ok: "P R E w"
    and found: "\<And>ch. om_get (channels w) n = Some ch \<Longrightarrow> (m \<Longrightarrow> hasMember ch fd) \<Longrightarrow>
          ch_name ch = n \<Longrightarrow> P R E (k ch w)"
  shows "P R E (case findChannelForCommand fd n m w of (None, w1) \<Rightarrow> w1 | (Some ch, w1) \<Rightarrow> k ch w1)"
proof -
  obtain r w1 where f: "findChannelForCommand fd n m w = (r, w1)" by fastforce
  show ?thesis
  proof (cases r)
    case None
    with f findChannelForCommand [OF ok, of fd n m] show ?thesis by simp
  next
    case (Some ch)
    note s = findChannel_Some [OF f [unfolded Some]]
    with f Some found [OF s(2,3)] service_channelD [OF sound [OF ok] s(2)] show ?thesis by (simp add: channel_ok_def)
  qed
qed

lemma handlePart: "P R E w \<Longrightarrow> P R E (handlePart actor msg w)"
  by (auto simp: handlePart_def Let_def intro!: sendNumeric foldInv partChannel)

lemma handleTopic: "P R E w \<Longrightarrow> empowered actor authority w \<Longrightarrow> P R E (handleTopic actor msg w)"
  unfolding handleTopic_def Let_def
  by (auto simp: empowered_def intro!: after_find sendNumeric sendTopicReply broadcastToChannel retitled)

lemma handleKick: "P R E w \<Longrightarrow> empowered actor authority w \<Longrightarrow> P R E (handleKick actor msg w)"
  unfolding handleKick_def Let_def
  by (auto simp: empowered_def intro!: after_find sendNumeric broadcastToChannel expelled)

lemma handleInvite: "P R E w \<Longrightarrow> empowered actor authority w \<Longrightarrow> P R E (handleInvite actor msg w)"
  unfolding handleInvite_def Let_def
  by (auto simp: empowered_def intro!: after_find sendNumeric sendRaw welcomed)

lemma applyMode:
  assumes "P R E w" and "om_get (channels w) n = Some ch" and "authority n"
    and "change = (\<lambda>ch. setInviteOnly ch b) \<or> change = (\<lambda>ch. setTopicProtected ch b) \<or>
      (\<exists>x. hasMember ch x \<and> change = (\<lambda>ch. setOperator ch x b))"
  shows "P R E (snd (applyMode actor n change m a w))"
  using reformed [OF assms] assms(2) by (simp add: applyMode_def broadcastMode)

lemma modeStep:
  assumes "P R E w" and "om_get (channels w) n = Some ch" and "authority n"
  shows "P R E (snd (snd (modeStep actor params n adding k m w)))"
proof -
  have "P R E (snd (operatorMode actor n adding nick w))" for nick
    using assms by (auto simp: operatorMode_def Let_def split: option.splits intro!: sendNumeric applyMode)
  with assms show ?thesis by (auto simp: modeStep_def intro!: sendNumeric applyMode)
qed

end

text \<open>A command invariant is a channel invariant for every client and with every authority.\<close>

sublocale command_invariant \<subseteq> by_client: channel_invariant P actor "\<lambda>_. True" for actor
proof
  fix R E w n ch w1 st x t nick change b
  assume ok: "P R E w"
  note chan = service_channelD [OF sound [OF ok]]
  show "P R E (dropMember n actor w)" "P R E (dropMember n x w)" using ok by (rule dropMember)+
  show "om_get (channels w) n = Some ch \<Longrightarrow> P R E (set_channels (om_put n (setTopic ch t) (channels w)) w)"
    "om_get (channels w) n = Some ch \<Longrightarrow> P R E (set_channels (om_put n (invite ch nick) (channels w)) w)"
    using ok chan by (auto intro!: put_channel channel_ok_update)
  show "P R E (set_channels (om_put n (change ch) (channels w)) w)"
    if "om_get (channels w) n = Some ch" "change = (\<lambda>ch. setInviteOnly ch b) \<or> change = (\<lambda>ch. setTopicProtected ch b) \<or>
        (\<exists>x. hasMember ch x \<and> change = (\<lambda>ch. setOperator ch x b))"
    using that ok chan by (auto intro!: put_channel channel_ok_update)
  assume e: "ensureChannel n w = (ch, w1)" and c: "isValidName n" "registry_find (clients w) actor = Some st" "cs_registered st"
  show "P R E (set_channels (om_put n (clearInvite (addMember ch actor (Channel_empty ch)) (cs_nick st)) (channels w1)) w1)"
    using e
  proof (cases rule: ensureChannel_cases)
    case old
    with ok c chan show ?thesis by (auto intro!: put_channel channel_ok_join)
  next
    case (new t f nm fs)
    with c have "channel_ok (clients w) n (clearInvite (addMember ch actor (Channel_empty ch)) (cs_nick st))"
      by (auto intro!: channel_ok_join)
    with ok show ?thesis unfolding new(3) new_room_eq by (intro log counting put_channel)
  qed
qed

section \<open>Commands never touch the state of other clients\<close>

text \<open>The clients of the second registry are clients of the first one, unchanged.\<close>

definition clients_within :: "client_registry \<Rightarrow> client_registry \<Rightarrow> bool" where
  "clients_within reg reg' \<longleftrightarrow> (\<forall>i st. registry_find reg' i = Some st \<longrightarrow> registry_find reg i = Some st)"

lemma clients_within_refl [simp]: "clients_within r r"
  by (simp add: clients_within_def)

interpretation shrink: client_predicate "\<lambda>a. clients_within r0 (app_clients a)" for r0
  by unfold_locales (auto simp: clients_within_def find_erase split: if_splits)

lemma registered_kept:
  assumes "registered_as fd w" and "clients_within (clients w) (clients w')" and "service_ok R E w'"
    and "findConnection w' fd \<noteq> None"
  shows "registered_as fd w'"
proof -
  from assms(3,4) obtain st where st: "registry_find (clients w') fd = Some st"
    by (auto simp: service_ok_def dest: app_okD(3) [of _ _ fd])
  with assms(1,2) show ?thesis by (auto simp: registered_as_def clients_within_def)
qed

lemma joinChannel_True:
  assumes ok: "service_ok R E w" and c: "registered_as fd w" and j: "joinChannel fd n w = (True, w')"
  shows "registered_as fd w'"
proof -
  have "service_ok R E w' \<and> clients_within (clients w) (clients w')"
    using shrink.kept.by_client.joinChannel [of R E w "clients w" fd n] ok c j by simp
  moreover have "findConnection w' fd \<noteq> None"
    using j by (auto simp: joinChannel_def Let_def split: prod.splits if_splits option.splits bool.splits
        dest: sendNumeric_True sendNames_True)
  ultimately show ?thesis using registered_kept [OF c] by blast
qed

context channel_invariant
begin

lemma handleJoin:
  assumes "P R E w" and "registered_as actor w"
  shows "P R E (handleJoin actor msg w)"
proof -
  have step: "P R E w' \<and> registered_as actor w'"
    if "P R E w" "registered_as actor w" "joinChannel actor x w = (True, w')" for x w w'
    using joinChannel [OF that(1,2), of x] joinChannel_True [OF sound [OF that(1)] that(2,3)] that(3) by simp
  have "P R E (snd (loop_each (joinChannel actor) ns w))" for ns
    by (rule loop_each_inv(1) [where I = "\<lambda>w. P R E w \<and> registered_as actor w"])
       (use step in \<open>simp_all add: assms joinChannel\<close>, blast)
  with assms show ?thesis
    by (auto simp: handleJoin_def Let_def intro: sendNumeric partAllChannels)
qed

end

text \<open>The channel that a MODE command works on is still there whenever the loop goes on.\<close>

lemma applyMode_True:
  assumes "applyMode fd n change m a w = (True, w')" and "om_get (channels w) n = Some ch" and "ch_name (change ch) = n"
  shows "om_has (channels w') n"
  using assms by (auto simp: applyMode_def dest: broadcastMode_True)

lemma modeStep_True:
  assumes "modeStep fd params n adding k m w = (k', True, w')" and "om_get (channels w) n = Some ch" and "ch_name ch = n"
  shows "om_has (channels w') n"
  using assms
  by (auto simp: modeStep_def operatorMode_def Let_def split: if_splits option.splits
      dest!: sendNumeric_True dest: applyMode_True)

context channel_invariant
begin

lemma modeLoop:
  assumes "P R E w" and "om_has (channels w) n" and "authority n"
  shows "P R E (modeLoop actor params n adding k modes w)"
  using assms(1,2)
proof (induction modes arbitrary: adding k w)
  case (Cons m modes)
  from Cons.prems(2) obtain ch where ch: "om_get (channels w) n = Some ch" by blast
  then have name: "ch_name ch = n"
    using service_channelD [OF sound [OF Cons.prems(1)] ch] by (simp add: channel_ok_def)
  obtain k' b w' where s: "modeStep actor params n adding k m w = (k', b, w')" by (metis prod_cases3)
  with modeStep [OF Cons.prems(1) ch assms(3), of params adding k m] have "P R E w'" by simp
  with Cons s modeStep_True [OF _ ch name] show ?case by (cases b) auto
qed simp

lemma handleChannelMode: "P R E w \<Longrightarrow> empowered actor authority w \<Longrightarrow> P R E (handleChannelMode actor msg w)"
  unfolding handleChannelMode_def Let_def
  by (auto simp: empowered_def intro!: after_find sendNumeric sendNumericRaw modeLoop)

lemma handleMode: "P R E w \<Longrightarrow> empowered actor authority w \<Longrightarrow> P R E (handleMode actor msg w)"
  by (simp add: handleMode_def Let_def sendNumeric sendNumericRaw handleChannelMode)

end

section \<open>The remaining handlers only send\<close>

context reply_invariant
begin

lemma privmsgTarget: "P R E w \<Longrightarrow> P R E (privmsgTarget fd text target w)"
  by (auto simp: privmsgTarget_def relayed_def Let_def split: option.splits
      intro!: counting sendNumeric sendRaw broadcastToChannel)

lemma handlePrivmsg: "P R E w \<Longrightarrow> P R E (handlePrivmsg fd msg w)"
  by (auto simp: handlePrivmsg_def Let_def intro!: sendNumeric foldInv privmsgTarget)

lemma loop_simple:
  "P R E w \<Longrightarrow> (\<And>x w. P R E w \<Longrightarrow> P R E (snd (body x w))) \<Longrightarrow> P R E (snd (loop_each body xs w))"
  by (rule loop_each_inv(1) [where I = "P R E"]) (simp_all, metis snd_conv)

lemma listChannel: "P R E w \<Longrightarrow> P R E (snd (listChannel fd req e w))"
  by (auto simp: listChannel_def split: prod.splits intro!: sendNumeric)

lemma handleList:
  assumes "P R E w"
  shows "P R E (handleList fd msg w)"
proof -
  have "P R E w1 \<Longrightarrow> P R E (case loop_each (listChannel fd req) xs w1 of (False, w2) \<Rightarrow> w2
      | (True, w2) \<Rightarrow> snd (sendNumeric fd 323 [] ''End of /LIST'' w2))" for req xs w1
    using loop_simple [of R E w1 "listChannel fd req" xs] listChannel
    by (auto split: prod.splits bool.splits intro!: sendNumeric)
  moreover obtain b w1 where s: "sendNumericRaw fd 321 [''Channel'', ''Users'', ''Name''] w = (b, w1)" by fastforce
  moreover from s sendNumericRaw [OF assms, of fd 321 "[''Channel'', ''Users'', ''Name'']"] have "P R E w1" by simp
  ultimately show ?thesis by (cases b) (simp_all add: handleList_def Let_def)
qed

lemma handleNames: "P R E w \<Longrightarrow> P R E (handleNames fd msg w)"
  by (auto simp: handleNames_def namesChannel_def Let_def split: option.splits
      intro!: loop_simple sendNames sendNumeric)

end

end
