(* ===== verification/Registration.thy ===== *)
theory Registration
  imports Commands
begin

text \<open>
  \<^verbatim>\<open>src/src/RegistrationCommands.cpp\<close>: PASS, NICK, USER, PING, PONG, QUIT and the registration gate.  A
  reference to a client state that a handler writes through becomes an update of the registry at the
  same point.
\<close>

section \<open>Access to the own state\<close>

text \<open>\<open>_clients.state(fd)\<close>: the state, created when missing.\<close>

definition client_ref :: "fd \<Rightarrow> world \<Rightarrow> client_state \<times> world" where
  "client_ref fd w = (case registry_state (clients w) fd of (client, reg) \<Rightarrow> (client, set_clients reg w))"

definition put_client :: "fd \<Rightarrow> client_state \<Rightarrow> world \<Rightarrow> world" where
  "put_client fd client w = set_clients (registry_set (clients w) fd client) w"

lemma client_ref_present: "registry_find (clients w) fd = Some st \<Longrightarrow> client_ref fd w = (st, w)"
  by (simp add: client_ref_def registry_state_def registry_find_def)

section \<open>The handlers\<close>

definition maybeRegister :: "fd \<Rightarrow> world \<Rightarrow> world" where
  "maybeRegister fd w =
     (case registry_find (clients w) fd of
        None \<Rightarrow> w
      | Some client \<Rightarrow>
          if cs_registered client \<or> \<not> cs_passOk client \<or> \<not> cs_hasNick client \<or> \<not> cs_hasUser client then w
          else
            (let w1 = put_client fd (client\<lparr>cs_registered := True\<rparr>) w;
                 nick = cs_nick client
             in case sendNumeric fd 1 [] (''Welcome to irc-relay-server, '' @ nick) w1 of
                  (False, w2) \<Rightarrow> w2
                | (True, w2) \<Rightarrow>
                    (case sendNumeric fd 2 [] (''Your host is '' @ app_serverName (w_app w2)) w2 of
                       (False, w3) \<Rightarrow> w3
                     | (True, w3) \<Rightarrow>
                         (case sendNumeric fd 3 [] ''This server is running a C++17 event backend'' w3 of
                            (False, w4) \<Rightarrow> w4
                          | (True, w4) \<Rightarrow>
                              logEvent ''client_registered'' [(''fd'', show_int fd), (''nick'', nick)] w4))))"

definition handlePass :: "fd \<Rightarrow> irc_message \<Rightarrow> world \<Rightarrow> world" where
  "handlePass fd message w =
     (let params = msg_params message in
      case client_ref fd w of
        (client, w1) \<Rightarrow>
          if cs_registered client \<or> cs_passOk client
          then snd (sendNumeric fd 462 [] ''You may not reregister'' w1)
          else if params = [] then snd (sendNumeric fd 461 [''PASS''] ''Not enough parameters'' w1)
          else if app_password (w_app w1) \<noteq> [] \<and> params ! 0 \<noteq> app_password (w_app w1)
          then requestClose fd ''Password incorrect'' (snd (sendNumeric fd 464 [] ''Password incorrect'' w1))
          else maybeRegister fd (put_client fd (client\<lparr>cs_passOk := True\<rparr>) w1))"

definition handleNick :: "fd \<Rightarrow> irc_message \<Rightarrow> world \<Rightarrow> world" where
  "handleNick fd message w =
     (let params = msg_params message in
      if params = [] then snd (sendNumeric fd 431 [] ''No nickname given'' w)
      else
        (let nextNick = params ! 0 in
         if \<not> isValidNickname nextNick then snd (sendNumeric fd 432 [nextNick] ''Erroneous nickname'' w)
         else
           (let collision = findFdByNickname (clients w) nextNick in
            if collision \<noteq> -1 \<and> collision \<noteq> fd
            then snd (sendNumeric fd 433 [nextNick] ''Nickname is already in use'' w)
            else
              (case client_ref fd w of
                 (client, w1) \<Rightarrow>
                   (let oldPrefix = prefixForClient w1 client;
                        w2 = set_clients (setNickname (clients w1) fd nextNick) w1
                    in if cs_registered client then
                         (let w3 = broadcastToCommon fd (formatMessage oldPrefix ''NICK'' [nextNick]) True w2 in
                          if \<not> registry_contains (clients w3) fd then w3 else maybeRegister fd w3)
                       else maybeRegister fd w2)))))"

definition handleUser :: "fd \<Rightarrow> irc_message \<Rightarrow> world \<Rightarrow> world" where
  "handleUser fd message w =
     (let params = msg_params message in
      case client_ref fd w of
        (client, w1) \<Rightarrow>
          if cs_registered client then snd (sendNumeric fd 462 [] ''You may not reregister'' w1)
          else if length params < 4 then snd (sendNumeric fd 461 [''USER''] ''Not enough parameters'' w1)
          else maybeRegister fd
                 (put_client fd (client\<lparr>cs_user := params ! 0, cs_realname := params ! 3, cs_hasUser := True\<rparr>) w1))"

definition handlePing :: "fd \<Rightarrow> irc_message \<Rightarrow> world \<Rightarrow> world" where
  "handlePing fd message w =
     (let params = msg_params message in
      if params = [] then snd (sendNumeric fd 409 [] ''No origin specified'' w)
      else snd (sendRaw fd (formatMessage (app_serverName (w_app w)) ''PONG'' [app_serverName (w_app w), params ! 0]) w))"

definition handlePong :: "fd \<Rightarrow> irc_message \<Rightarrow> world \<Rightarrow> world" where
  "handlePong fd message w =
     (let params = msg_params message in
      case client_ref fd w of
        (client, w1) \<Rightarrow>
          if \<not> cs_awaitingPong client \<or> length params \<noteq> 1 \<or> params ! 0 \<noteq> cs_pendingPongToken client then w1
          else put_client fd (client\<lparr>cs_awaitingPong := False, cs_pendingPongToken := [], cs_lastPingAt := 0\<rparr>) w1)"

definition handleQuit :: "fd \<Rightarrow> irc_message \<Rightarrow> world \<Rightarrow> world" where
  "handleQuit fd message w =
     (let reason = (if msg_params message = [] then ''Client Quit'' else msg_params message ! 0)
      in requestClose fd reason w)"

section \<open>Invariants of a session\<close>

text \<open>
  The handlers above also write the state of the client they serve, the \<open>actor\<close>.  \<open>passing\<close> says
  whether the predicate allows the password flag of the actor to change.
\<close>

text \<open>A command at time \<open>now\<close> may drop the oldest timestamps of the window and append its own.\<close>

definition window_step :: "monotonic_time \<Rightarrow> monotonic_time list \<Rightarrow> monotonic_time list \<Rightarrow> bool" where
  "window_step now ts ts' \<longleftrightarrow> ts' = ts \<or> (\<exists>n. ts' = drop n ts @ [now])"

lemma window_step_refl [simp]: "window_step now ts ts"
  by (simp add: window_step_def)

locale identity_invariant = reply_invariant +
  fixes actor :: fd and passing :: bool
  assumes set_client: "P R E w \<Longrightarrow> registry_find (clients w) actor = Some st \<Longrightarrow> client_ok actor st' \<Longrightarrow>
      cs_nick st' = cs_nick st \<Longrightarrow> (cs_registered st \<Longrightarrow> cs_registered st') \<Longrightarrow>
      passing \<or> cs_passOk st' = cs_passOk st \<Longrightarrow>
      window_step (os_now (w_os w)) (cs_commandWindow st) (cs_commandWindow st') \<Longrightarrow> P R E (put_client actor st' w)"
    and renaming: "P R E w \<Longrightarrow> registry_find (clients w) actor = Some st \<Longrightarrow> isValidNickname n \<Longrightarrow>
      findFdByNickname (clients w) n \<in> {-1, actor} \<Longrightarrow> P R E (set_clients (setNickname (clients w) actor n) w)"
    and token: "P R E w \<Longrightarrow> P R E (w\<lparr>w_app := (w_app w)\<lparr>app_nextHeartbeatToken := t\<rparr>\<rparr>)"
begin

lemma known: "P R E w \<Longrightarrow> registry_find (clients w) fd = Some st \<Longrightarrow> client_ok fd st"
  using sound by (auto simp: service_ok_def dest: app_okD(2))

lemma maybeRegister:
  assumes ok: "P R E w"
  shows "P R E (maybeRegister actor w)"
proof (cases "registry_find (clients w) actor")
  case None
  with ok show ?thesis by (simp add: maybeRegister_def)
next
  case (Some st)
  let ?w1 = "put_client actor (st\<lparr>cs_registered := True\<rparr>) w"
  have reg: "P R E ?w1" if "cs_passOk st" "cs_hasNick st" "cs_hasUser st"
    by (rule set_client [OF ok Some]) (use known [OF ok Some] that in \<open>simp_all add: client_ok_def\<close>)
  have tail: "P R E w' \<Longrightarrow> P R E (case sendNumeric fd n ps t w' of (False, w) \<Rightarrow> w | (True, w) \<Rightarrow> k w)"
    if "\<And>w. P R E w \<Longrightarrow> P R E (k w)" for w' fd n ps t k
    using sendNumeric [of R E w' fd n ps t] that by (auto split: prod.splits bool.splits)
  show ?thesis
    unfolding maybeRegister_def Let_def Some option.case
    by (rule if_split [THEN iffD2]) (use ok reg in \<open>auto intro!: tail log\<close>)
qed

lemma handlePass:
  assumes ok: "P R E w" and "registry_find (clients w) actor = Some st" and "actor \<in> E"
    and "passing \<or> msg_params m = [] \<or> app_password (w_app w) \<noteq> [] \<and> msg_params m ! 0 \<noteq> app_password (w_app w)"
  shows "P R E (handlePass actor m w)"
proof -
  have "P R E (put_client actor (st\<lparr>cs_passOk := True\<rparr>) w)" if "passing"
    by (rule set_client [OF ok assms(2)]) (use known [OF ok assms(2)] that in \<open>auto simp: client_ok_def\<close>)
  with assms show ?thesis
    by (auto simp: handlePass_def Let_def client_ref_present intro!: sendNumeric closing maybeRegister)
qed

lemma handleNick:
  assumes ok: "P R E w" and "registry_find (clients w) actor = Some st"
  shows "P R E (handleNick actor m w)"
proof -
  let ?n = "msg_params m ! 0"
  let ?w2 = "set_clients (setNickname (clients w) actor ?n) w"
  let ?taken = "findFdByNickname (clients w) ?n \<noteq> -1 \<and> findFdByNickname (clients w) ?n \<noteq> actor"
  have w2: "P R E ?w2" if "isValidNickname ?n" "\<not> ?taken"
    using that(2) by (intro renaming [OF ok assms(2) that(1)]) blast
  show ?thesis
  proof (cases "msg_params m = [] \<or> \<not> isValidNickname ?n \<or> ?taken")
    case True
    with ok show ?thesis unfolding handleNick_def Let_def by (auto intro!: sendNumeric)
  next
    case False
    with w2 have "P R E ?w2" by blast
    with False show ?thesis
      unfolding handleNick_def Let_def client_ref_present [OF assms(2)]
      by (simp add: maybeRegister broadcastToCommon sendNumeric [OF ok])
  qed
qed

lemma handleUser:
  assumes ok: "P R E w" and st: "registry_find (clients w) actor = Some st"
  shows "P R E (handleUser actor m w)"
proof -
  have "P R E (put_client actor (st\<lparr>cs_user := u, cs_realname := r, cs_hasUser := True\<rparr>) w)" for u r
    by (rule set_client [OF ok st]) (use known [OF ok st] in \<open>auto simp: client_ok_def\<close>)
  with assms show ?thesis
    by (auto simp: handleUser_def Let_def client_ref_present intro!: sendNumeric maybeRegister)
qed

lemma handlePing: "P R E w \<Longrightarrow> P R E (handlePing fd m w)"
  by (simp add: handlePing_def Let_def sendNumeric sendRaw)

lemma handlePong:
  assumes ok: "P R E w" and st: "registry_find (clients w) actor = Some st"
  shows "P R E (handlePong actor m w)"
proof -
  have "P R E (put_client actor (st\<lparr>cs_awaitingPong := False, cs_pendingPongToken := [], cs_lastPingAt := 0\<rparr>) w)"
    by (rule set_client [OF ok st]) (use known [OF ok st] in \<open>auto simp: client_ok_def\<close>)
  with assms show ?thesis by (simp add: handlePong_def Let_def client_ref_present)
qed

lemma handleQuit: "P R E w \<Longrightarrow> fd \<in> E \<Longrightarrow> P R E (handleQuit fd m w)"
  by (simp add: handleQuit_def Let_def closing)

end

text \<open>With the channel commands added this is the whole session of a client.\<close>

locale session_invariant = command_invariant + identity_invariant

section \<open>Instances\<close>

lemma service_ok_token: "service_ok R E (w\<lparr>w_app := (w_app w)\<lparr>app_nextHeartbeatToken := t\<rparr>\<rparr>) = service_ok R E w"
  unfolding service_ok_def
  using server_ok_cong [of "w\<lparr>w_app := (w_app w)\<lparr>app_nextHeartbeatToken := t\<rparr>\<rparr>" w E]
    app_ok_cong [of "w\<lparr>w_app := (w_app w)\<lparr>app_nextHeartbeatToken := t\<rparr>\<rparr>" w R] by simp

interpretation session: session_invariant service_ok actor True for actor
proof
  fix R E w st st' n
  show "service_ok R E w \<Longrightarrow> registry_find (clients w) actor = Some st \<Longrightarrow> client_ok actor st' \<Longrightarrow>
      cs_nick st' = cs_nick st \<Longrightarrow> (cs_registered st \<Longrightarrow> cs_registered st') \<Longrightarrow>
      True \<or> cs_passOk st' = cs_passOk st \<Longrightarrow>
      window_step (os_now (w_os w)) (cs_commandWindow st) (cs_commandWindow st') \<Longrightarrow> service_ok R E (put_client actor st' w)"
    unfolding put_client_def by (rule service_set_client)
  show "service_ok R E w \<Longrightarrow> registry_find (clients w) actor = Some st \<Longrightarrow> isValidNickname n \<Longrightarrow>
      findFdByNickname (clients w) n \<in> {-1, actor} \<Longrightarrow> service_ok R E (set_clients (setNickname (clients w) actor n) w)"
    by (rule service_setNickname)
  show "service_ok R E w \<Longrightarrow> service_ok R E (w\<lparr>w_app := (w_app w)\<lparr>app_nextHeartbeatToken := t\<rparr>\<rparr>)" for t
    by (simp add: service_ok_token)
qed

text \<open>Other clients are left alone, and without a correct PASS the password flag stays as it is.\<close>

definition others_within :: "fd \<Rightarrow> client_registry \<Rightarrow> client_registry \<Rightarrow> bool" where
  "others_within actor reg reg' \<longleftrightarrow>
     (\<forall>i st. i \<noteq> actor \<and> registry_find reg' i = Some st \<longrightarrow> registry_find reg i = Some st)"

definition pass_kept :: "fd \<Rightarrow> bool \<Rightarrow> client_registry \<Rightarrow> bool" where
  "pass_kept actor before reg \<longleftrightarrow> (\<forall>st. registry_find reg actor = Some st \<longrightarrow> cs_passOk st = before)"

interpretation iso: client_predicate "\<lambda>a. others_within actor r0 (app_clients a)" for actor r0
  by unfold_locales (auto simp: others_within_def find_erase split: if_splits)

interpretation auth: client_predicate "\<lambda>a. pass_kept actor before (app_clients a)" for actor before
  by unfold_locales (auto simp: pass_kept_def find_erase split: if_splits)

interpretation isolated: session_invariant "iso.held actor r0" actor True for actor r0
  by unfold_locales
     (auto simp: put_client_def service_set_client service_setNickname service_ok_token others_within_def find_set find_setNickname)

interpretation guarded: session_invariant "auth.held actor before" actor False for actor before
  by unfold_locales
     (auto simp: put_client_def service_set_client service_setNickname service_ok_token pass_kept_def find_set find_setNickname)

end
