(* ===== verification/Application.thy ===== *)
theory Application
  imports Registration
begin

text \<open>
  \<^verbatim>\<open>src/src/IrcApplication.cpp\<close>: the callbacks of the server, command dispatch, the rate limit and the
  heartbeat.  Times are in nanoseconds of the monotonic clock.
\<close>

definition seconds :: "int \<Rightarrow> monotonic_time" where
  "seconds n = n * 1000000000"

definition AppMetrics :: app_metrics where
  "AppMetrics = \<lparr>commandsHandled = 0, messagesRelayed = 0, roomsCreated = 0, rateLimitedClients = 0,
                 idleTimeouts = 0, heartbeatPings = 0\<rparr>"

definition IrcApplication :: "string \<Rightarrow> runtime_config \<Rightarrow> irc_application" where
  "IrcApplication password runtime =
     \<lparr>app_password = password, app_runtime = runtime, app_serverName = ''irc.relay.local'',
      app_clients = ClientRegistry, app_channels = om_empty,
      app_metrics = AppMetrics, app_nextHeartbeatToken = 0\<rparr>"

section \<open>Connecting\<close>

definition onConnect :: "connection \<Rightarrow> world \<Rightarrow> world" where
  "onConnect connection w =
     (case clock_now w of
        (now, w1) \<Rightarrow>
          (let client = ClientState\<lparr>cs_fd := cn_fd connection, cs_host := cn_peerAddress connection,
                 cs_passOk := (app_password (w_app w1) = []), cs_connectedAt := now, cs_lastActivityAt := now\<rparr>
           in logEvent ''client_connected'' [(''fd'', show_int (cs_fd client)), (''peer'', cs_host client)]
                (put_client (cs_fd client) client w1)))"

section \<open>Dispatch\<close>

definition handleMessage :: "fd \<Rightarrow> irc_message \<Rightarrow> world \<Rightarrow> world" where
  "handleMessage fd message w =
     (let cmd = msg_command message in
      if cmd = ''PASS'' then handlePass fd message w
      else if cmd = ''NICK'' then handleNick fd message w
      else if cmd = ''USER'' then handleUser fd message w
      else if cmd = ''PING'' then handlePing fd message w
      else if cmd = ''PONG'' then handlePong fd message w
      else if cmd = ''QUIT'' then handleQuit fd message w
      else
        (case client_ref fd w of
           (client, w1) \<Rightarrow>
             if \<not> cs_registered client then snd (sendNumeric fd 451 [] ''You have not registered'' w1)
             else if cmd = ''PRIVMSG'' then handlePrivmsg fd message w1
             else if cmd = ''JOIN'' then handleJoin fd message w1
             else if cmd = ''PART'' then handlePart fd message w1
             else if cmd = ''TOPIC'' then handleTopic fd message w1
             else if cmd = ''KICK'' then handleKick fd message w1
             else if cmd = ''INVITE'' then handleInvite fd message w1
             else if cmd = ''MODE'' then handleMode fd message w1
             else if cmd = ''LIST'' then handleList fd message w1
             else if cmd = ''NAMES'' then handleNames fd message w1
             else if cmd = ''METRICS'' then handleMetrics fd w1
             else snd (sendNumeric fd 421 [cmd] ''Unknown command'' w1)))"

section \<open>Rate limit\<close>

definition recordCommand :: "fd \<Rightarrow> monotonic_time \<Rightarrow> world \<Rightarrow> bool \<times> world" where
  "recordCommand fd now w =
     (case client_ref fd w of
        (client, w1) \<Rightarrow>
          (let runtime = app_runtime (w_app w1);
               window = dropWhile (\<lambda>t. now - t \<ge> seconds (rt_rateLimitWindowSeconds runtime)) (cs_commandWindow client)
                        @ [now];
               w2 = put_client fd (client\<lparr>cs_commandWindow := window\<rparr>) w1
           in if rt_rateLimitCount runtime \<noteq> 0 \<and> length window > unat (rt_rateLimitCount runtime) then
                (let w3 = count_app (\<lambda>m. m\<lparr>rateLimitedClients := rateLimitedClients m + 1\<rparr>) w2;
                     w4 = snd (sendNumeric fd 439 [] ''Command rate limit exceeded'' w3);
                     w5 = requestClose fd ''command rate limit exceeded'' w4
                 in (False, logEvent ''client_rate_limited'' [(''fd'', show_int fd), (''nick'', replyTarget w5 fd)] w5))
              else (True, w2)))"

definition onLine :: "connection \<Rightarrow> string \<Rightarrow> world \<Rightarrow> world" where
  "onLine connection line w =
     (let fd = cn_fd connection;
          w1 = (if \<not> registry_contains (clients w) fd then onConnect connection w else w)
      in case clock_now w1 of
           (now, w2) \<Rightarrow>
             (case client_ref fd w2 of
                (client, w3) \<Rightarrow>
                  (let w4 = put_client fd (client\<lparr>cs_lastActivityAt := now\<rparr>) w3 in
                   case parseLine line of
                     Inl parseError \<Rightarrow> snd (sendNumeric fd 417 [] parseError w4)
                   | Inr message \<Rightarrow>
                       (case recordCommand fd now w4 of
                          (False, w5) \<Rightarrow> w5
                        | (True, w5) \<Rightarrow>
                            handleMessage fd message
                              (count_app (\<lambda>m. m\<lparr>commandsHandled := commandsHandled m + 1\<rparr>) w5)))))"

section \<open>Heartbeat\<close>

definition maintainClient :: "fd \<Rightarrow> monotonic_time \<Rightarrow> world \<Rightarrow> world" where
  "maintainClient fd now w =
     (case registry_find (clients w) fd of
        None \<Rightarrow> w
      | Some client \<Rightarrow>
          (let runtime = app_runtime (w_app w) in
           if \<not> cs_registered client \<and> now - cs_connectedAt client \<ge> seconds (rt_registrationTimeoutSeconds runtime)
           then requestClose fd ''registration timeout'' (snd (sendNumeric fd 451 [] ''Registration timeout'' w))
           else if rt_idleTimeoutSeconds runtime \<le> 0 then w
           else if cs_awaitingPong client \<and> now - cs_lastPingAt client \<ge> seconds (rt_pingTimeoutSeconds runtime)
           then
             (let w1 = count_app (\<lambda>m. m\<lparr>idleTimeouts := idleTimeouts m + 1\<rparr>) w;
                  w2 = snd (sendRaw fd (error_line ''Ping timeout'') w1);
                  w3 = requestClose fd ''ping timeout'' w2
              in logEvent ''client_ping_timeout'' [(''fd'', show_int fd), (''nick'', replyTarget w3 fd)] w3)
           else if \<not> cs_awaitingPong client \<and> now - cs_lastActivityAt client \<ge> seconds (rt_idleTimeoutSeconds runtime)
           then
             (let next_token = app_nextHeartbeatToken (w_app w) + 1;
                  token = ''heartbeat-'' @ show_int fd @ ''-'' @ show_size next_token;
                  w1 = w\<lparr>w_app := (w_app w)\<lparr>app_nextHeartbeatToken := next_token\<rparr>\<rparr>;
                  w2 = put_client fd (client\<lparr>cs_awaitingPong := True, cs_pendingPongToken := token, cs_lastPingAt := now\<rparr>) w1
              in case sendRaw fd (formatMessage (app_serverName (w_app w2)) ''PING'' [token]) w2 of
                   (False, w3) \<Rightarrow> w3
                 | (True, w3) \<Rightarrow> count_app (\<lambda>m. m\<lparr>heartbeatPings := heartbeatPings m + 1\<rparr>) w3)
           else w))"

definition onTick :: "world \<Rightarrow> world" where
  "onTick w =
     (case clock_now w of
        (now, w1) \<Rightarrow> fold (\<lambda>fd w. maintainClient fd now w) (registry_fds (clients w1)) w1)"

section \<open>Shutdown\<close>

definition logMetrics :: "world \<Rightarrow> world" where
  "logMetrics w =
     (let sm = srv_metrics (w_server w); am = app_metrics (w_app w) in
      logEvent ''server_metrics''
        [(''accepted'', show_size (acceptedConnections sm)), (''closed'', show_size (closedConnections sm)),
         (''lines'', show_size (linesReceived sm)), (''queue_drops'', show_size (outboundQueueDrops sm)),
         (''commands'', show_size (commandsHandled am)), (''messages'', show_size (messagesRelayed am)),
         (''rooms'', show_nat (om_size (channels w))), (''rooms_created'', show_size (roomsCreated am)),
         (''rate_limited'', show_size (rateLimitedClients am)), (''idle_timeouts'', show_size (idleTimeouts am)),
         (''heartbeats'', show_size (heartbeatPings am))] w)"

definition shutdown :: "string \<Rightarrow> world \<Rightarrow> world" where
  "shutdown reason w =
     logMetrics (fold (\<lambda>fd w. requestClose fd reason (snd (sendRaw fd (error_line reason) w))) (registry_fds (clients w)) w)"

section \<open>Dispatch keeps every session invariant\<close>

text \<open>The commands that change channels, and the rest.\<close>

definition channel_commands :: "string set" where
  "channel_commands = {''JOIN'', ''PART'', ''TOPIC'', ''KICK'', ''INVITE'', ''MODE''}"

context channel_invariant
begin

lemma channel_command:
  assumes ok: "P R E w" and st: "registry_find (clients w) actor = Some st" "cs_registered st"
    and m: "msg_command m \<in> channel_commands" and pw: "empowered actor authority w"
  shows "P R E (handleMessage actor m w)"
proof -
  have "registered_as actor w" using st by (simp add: registered_as_def)
  with m show ?thesis
    unfolding handleMessage_def Let_def client_ref_present [OF st(1)] prod.case channel_commands_def
    by (auto simp: st(2) handleJoin [OF ok] handlePart [OF ok] handleTopic [OF ok pw] handleKick [OF ok pw]
        handleInvite [OF ok pw] handleMode [OF ok pw])
qed

end

context identity_invariant
begin

lemma handleMessage:
  assumes ok: "P R E w" and st: "registry_find (clients w) actor = Some st" and E: "actor \<in> E"
    and pass: "passing \<or> msg_command m \<noteq> ''PASS'' \<or> msg_params m = [] \<or>
      app_password (w_app w) \<noteq> [] \<and> msg_params m ! 0 \<noteq> app_password (w_app w)"
    and chan: "cs_registered st \<Longrightarrow> msg_command m \<in> channel_commands \<Longrightarrow> P R E (handleMessage actor m w)"
  shows "P R E (handleMessage actor m w)"
proof (cases "cs_registered st \<and> msg_command m \<in> channel_commands")
  case False
  note reply_handlers = handlePrivmsg [OF ok] handleList [OF ok] handleNames [OF ok] handleMetrics [OF ok] sendNumeric [OF ok]
  note session_handlers = handlePass [OF ok st E] handleNick [OF ok st] handleUser [OF ok st] handlePing [OF ok]
    handlePong [OF ok st] handleQuit [OF ok E]
  show ?thesis
    unfolding handleMessage_def Let_def client_ref_present [OF st] prod.case
    using pass False by (simp add: reply_handlers session_handlers channel_commands_def)
qed (simp add: chan)

lemma touch:
  assumes ok: "P R E w" and st: "registry_find (clients w) actor = Some st"
    and "cs_fd st' = cs_fd st" "cs_passOk st' = cs_passOk st" "cs_hasNick st' = cs_hasNick st"
      "cs_hasUser st' = cs_hasUser st" "cs_registered st' = cs_registered st" "cs_nick st' = cs_nick st"
      "window_step (os_now (w_os w)) (cs_commandWindow st) (cs_commandWindow st')"
  shows "P R E (put_client actor st' w)"
  by (rule set_client [OF ok st]) (use known [OF ok st] assms(3-) in \<open>auto simp: client_ok_def\<close>)

lemma recordCommand:
  assumes ok: "P R E w" and st: "registry_find (clients w) actor = Some st" and E: "actor \<in> E"
    and now: "now = os_now (w_os w)"
  shows "P R E (snd (recordCommand actor now w))"
proof -
  have "P R E (put_client actor (st\<lparr>cs_commandWindow := dropWhile f (cs_commandWindow st) @ [now]\<rparr>) w)" for f
    by (rule touch [OF ok st]) (auto simp: window_step_def now dropWhile_eq_drop)
  with E show ?thesis
    unfolding recordCommand_def Let_def client_ref_present [OF st] prod.case
    by (simp add: log closing sendNumeric counting)
qed

end

lemma recordCommand_True:
  assumes "registry_find (clients w) fd = Some st" and "recordCommand fd now w = (True, w')"
  shows "\<exists>ts. w' = put_client fd (st\<lparr>cs_commandWindow := ts\<rparr>) w"
  using assms by (auto simp: recordCommand_def Let_def client_ref_present split: if_splits)

lemma find_put_client [simp]:
  "registry_find (clients (put_client fd st w)) g = (if g = fd then Some st else registry_find (clients w) g)"
  by (simp add: put_client_def find_set)

lemma put_client_frame [simp]:
  "w_server (put_client fd st w) = w_server w" "w_fault (put_client fd st w) = w_fault w"
  "channels (put_client fd st w) = channels w" "app_password (w_app (put_client fd st w)) = app_password (w_app w)"
  "app_runtime (w_app (put_client fd st w)) = app_runtime (w_app w)"
  by (simp_all add: put_client_def)

section \<open>The callbacks keep every session invariant\<close>

context reply_invariant
begin

lemma clock: "P R E w \<Longrightarrow> clock_now w = (t, w') \<Longrightarrow> P R E w'"
  by (rule outside [of R E w]) (simp_all add: clock_now_undisturbed)

end

context identity_invariant
begin

text \<open>A line that holds a channel command reaches the handler with the channels as they were.\<close>

lemma onLine_with:
  assumes ok: "P {} E w" and st: "registry_find (clients w) actor = Some st" and c: "cn_fd c = actor" "actor \<in> E"
    and pass: "passing \<or> (\<forall>m. parseLine line = Inr m \<longrightarrow> msg_command m \<noteq> ''PASS'' \<or> msg_params m = [] \<or>
      app_password (w_app w) \<noteq> [] \<and> msg_params m ! 0 \<noteq> app_password (w_app w))"
    and chan: "\<And>m w' st'. P {} E w' \<Longrightarrow> channels w' = channels w \<Longrightarrow> registry_find (clients w') actor = Some st' \<Longrightarrow>
      cs_nick st' = cs_nick st \<Longrightarrow> cs_registered st' \<Longrightarrow> msg_command m \<in> channel_commands \<Longrightarrow> P {} E (handleMessage actor m w')"
  shows "P {} E (onLine c line w)"
proof -
  obtain now w2 where clk: "clock_now w = (now, w2)" by fastforce
  have app: "w_app w2 = w_app w" and now: "now = os_now (w_os w2)" using clock_now_frame [OF clk] by simp_all
  have ok2: "P {} E w2" and st2: "registry_find (clients w2) actor = Some st"
    using clock [OF ok clk] st app by simp_all
  let ?st = "st\<lparr>cs_lastActivityAt := now\<rparr>" and ?w4 = "put_client actor (st\<lparr>cs_lastActivityAt := now\<rparr>) w2"
  have ok4: "P {} E ?w4" by (rule touch [OF ok2 st2]) simp_all
  have st4: "registry_find (clients ?w4) actor = Some ?st" and now4: "now = os_now (w_os ?w4)"
    using now by (simp_all add: put_client_def find_set)
  have handled: "P {} E (handleMessage actor m (count_app f w5))"
    if rc: "recordCommand actor now ?w4 = (True, w5)" and m: "parseLine line = Inr m" for m f w5
  proof -
    have ok5: "P {} E (count_app f w5)" using recordCommand [OF ok4 st4 c(2) now4] rc by (simp add: counting)
    obtain ts where w5: "w5 = put_client actor (?st\<lparr>cs_commandWindow := ts\<rparr>) ?w4"
      using recordCommand_True [OF st4 rc] by blast
    let ?st5 = "?st\<lparr>cs_commandWindow := ts\<rparr>"
    have st5: "registry_find (clients (count_app f w5)) actor = Some ?st5" and ch5: "channels (count_app f w5) = channels w"
      using app by (simp_all add: w5)
    show ?thesis
      by (rule handleMessage [OF ok5 st5 c(2)], use pass m app in \<open>simp add: w5\<close>, rule chan [OF ok5 ch5 st5]) simp_all
  qed
  have "P {} E (snd (recordCommand actor now ?w4))" by (rule recordCommand [OF ok4 st4 c(2) now4])
  with handled ok4 st c(1) show ?thesis
    unfolding onLine_def Let_def
    by (auto simp: registry_contains_find clk client_ref_present [OF st2] sendNumeric
        split: sum.splits prod.splits bool.splits)
qed

end

text \<open>The timer only touches the heartbeat of a client; a predicate that allows this is kept by \<open>maintainClient\<close>.\<close>

locale heartbeat_invariant = reply_invariant +
  fixes actor :: fd
  assumes beating: "P R E w \<Longrightarrow> registry_find (clients w) actor = Some st \<Longrightarrow>
      P R E (put_client actor (st\<lparr>cs_awaitingPong := True, cs_pendingPongToken := k, cs_lastPingAt := now\<rparr>) w)"
    and counting_up: "P R E w \<Longrightarrow> P R E (w\<lparr>w_app := (w_app w)\<lparr>app_nextHeartbeatToken := t\<rparr>\<rparr>)"
begin

lemma maintainClient:
  assumes ok: "P R E w"
  shows "P R E (maintainClient actor now w)"
proof (cases "registry_find (clients w) actor")
  case None
  with ok show ?thesis by (simp add: maintainClient_def)
next
  case (Some st)
  have beat: "P R E (put_client actor (st\<lparr>cs_awaitingPong := True, cs_pendingPongToken := k, cs_lastPingAt := now\<rparr>)
      (w\<lparr>w_app := (w_app w)\<lparr>app_nextHeartbeatToken := t\<rparr>\<rparr>))" for k t
    by (rule beating) (simp_all add: counting_up ok Some)
  have beat_sent: "P R E (case sendRaw actor l w' of (False, w3) \<Rightarrow> w3
      | (True, w3) \<Rightarrow> count_app (\<lambda>m. m\<lparr>heartbeatPings := heartbeatPings m + 1\<rparr>) w3)"
    if "w' = put_client actor (st\<lparr>cs_awaitingPong := True, cs_pendingPongToken := k, cs_lastPingAt := now\<rparr>)
      (w\<lparr>w_app := (w_app w)\<lparr>app_nextHeartbeatToken := t\<rparr>\<rparr>)" for l w' k t
    using sendRaw [OF beat [of k t], of actor l] that by (auto split: prod.splits bool.splits intro: counting)
  have close: "P R E (requestClose actor r (snd (sendRaw actor l w')))"
    "P R E (requestClose actor r (snd (sendNumeric actor n ps t w')))"
    if "P R E w'" for r l w' n ps t
    using send_closing [OF that] by (simp_all add: sendNumeric_def sendRaw_def)
  show ?thesis
    unfolding maintainClient_def Let_def Some option.case
    using ok by (simp add: close beat_sent counting log)
qed

end

sublocale identity_invariant \<subseteq> beats: heartbeat_invariant P actor
  by unfold_locales (auto intro: touch token)

context session_invariant
begin

lemma onLine:
  assumes ok: "P {} E w" and conn: "findConnection w (cn_fd c) = Some c'" and c: "cn_fd c = actor" "actor \<in> E"
    and pass: "passing \<or> (\<forall>m. parseLine line = Inr m \<longrightarrow> msg_command m \<noteq> ''PASS'' \<or> msg_params m = [] \<or>
      app_password (w_app w) \<noteq> [] \<and> msg_params m ! 0 \<noteq> app_password (w_app w))"
  shows "P {} E (onLine c line w)"
proof -
  from sound [OF ok] conn c(1) obtain st where "registry_find (clients w) actor = Some st"
    by (metis service_client_of_conn)
  from onLine_with [OF ok this c pass] show ?thesis by (simp add: by_client.channel_command)
qed

end

section \<open>The timer and the shutdown\<close>

text \<open>These serve all clients in turn, so the predicate has to be a heartbeat invariant for each of them.\<close>

locale loop_invariant =
  fixes P :: "fd set \<Rightarrow> fd set \<Rightarrow> world \<Rightarrow> bool"
  assumes heartbeat: "heartbeat_invariant P actor"
begin

lemma replies: "reply_invariant P"
  using heartbeat by (rule heartbeat_invariant.axioms(1))

lemma onTick:
  assumes "P R E w"
  shows "P R E (onTick w)"
proof -
  obtain now w1 where clk: "clock_now w = (now, w1)" by fastforce
  have "P R E (fold (\<lambda>fd w. maintainClient fd now w) fds w1)" for fds
    by (rule reply_invariant.foldInv [OF replies reply_invariant.clock [OF replies assms clk]])
       (rule heartbeat_invariant.maintainClient [OF heartbeat])
  then show ?thesis by (simp add: onTick_def clk)
qed

lemma shutdown:
  assumes "P R E w"
  shows "P R E (shutdown r w)"
proof -
  have "P R E (fold (\<lambda>fd w. requestClose fd r (snd (sendTo fd (error_line r) w))) fds w)" for fds
    by (rule reply_invariant.foldInv [OF replies assms]) (rule reply_invariant.send_closing [OF replies])
  then show ?thesis
    unfolding shutdown_def logMetrics_def Let_def sendRaw_def
    by (rule relay_invariant.log [OF reply_invariant.axioms(1) [OF replies]])
qed

end

interpretation loop: loop_invariant service_ok
  by unfold_locales

end
