(* ===== verification/Server_Loop.thy ===== *)
theory Server_Loop
  imports Application
begin

text \<open>
  \<^verbatim>\<open>src/src/Server.cpp\<close>: start-up, accepting, the events of a client, one round of the event loop and
  shutdown.  An operation that may throw returns the text of the exception.
\<close>

section \<open>Configuring a socket\<close>

definition config_call :: "string \<Rightarrow> world \<Rightarrow> string option \<times> world" where
  "config_call what w =
     (case next_call (os_calls (w_os w)) of
        (r, rest) \<Rightarrow> (map_option (system_error (strerror_of w) what) r, w\<lparr>w_os := (w_os w)\<lparr>os_calls := rest\<rparr>\<rparr>))"

fun config_calls :: "string list \<Rightarrow> world \<Rightarrow> string option \<times> world" where
  "config_calls [] w = (None, w)"
| "config_calls (what # rest) w =
     (case config_call what w of
        (None, w1) \<Rightarrow> config_calls rest w1
      | (Some e, w1) \<Rightarrow> (Some e, w1))"

text \<open>\<open>setCloseOnExec\<close>, \<open>setNonBlocking\<close> and \<open>setNoSigPipe\<close> as the system calls they make.\<close>

definition setCloseOnExec :: "string list" where
  "setCloseOnExec = [''fcntl F_GETFD'', ''fcntl F_SETFD'']"

definition setNonBlocking :: "string list" where
  "setNonBlocking = [''fcntl F_GETFL'', ''fcntl F_SETFL'']"

definition setNoSigPipe :: "platform \<Rightarrow> string list" where
  "setNoSigPipe platform = (case platform of Bsd \<Rightarrow> [''setsockopt SO_NOSIGPIPE''] | Linux \<Rightarrow> [])"

definition close_call :: "fd \<Rightarrow> world \<Rightarrow> world" where
  "close_call fd w = w\<lparr>w_os := (w_os w)\<lparr>os_closed := os_closed (w_os w) @ [fd]\<rparr>\<rparr>"

section \<open>Starting and stopping\<close>

definition Server :: "server_config \<Rightarrow> server" where
  "Server config =
     \<lparr>srv_config = config, srv_listenFd = -1, srv_eventManager = None, srv_connections = om_empty,
      srv_running = False, srv_stopRequested = False,
      srv_metrics = \<lparr>acceptedConnections = 0, closedConnections = 0, linesReceived = 0, outboundQueueDrops = 0\<rparr>,
      srv_onConnect = False, srv_onLine = False, srv_onDisconnect = False, srv_onError = False\<rparr>"

text \<open>The constructor that is given an event manager; a null pointer is refused.\<close>

definition Server_with :: "server_config \<Rightarrow> event_manager option \<Rightarrow> string + server" where
  "Server_with config eventManager =
     (case eventManager of
        None \<Rightarrow> Inl ''event manager must not be null''
      | Some em \<Rightarrow> Inr ((Server config)\<lparr>srv_eventManager := Some em\<rparr>))"

text \<open>A handler is installed or cleared; the handler that may be installed is the one of the application.\<close>

definition setConnectHandler :: "bool \<Rightarrow> server \<Rightarrow> server" where
  "setConnectHandler handler s = s\<lparr>srv_onConnect := handler\<rparr>"

definition setLineHandler :: "bool \<Rightarrow> server \<Rightarrow> server" where
  "setLineHandler handler s = s\<lparr>srv_onLine := handler\<rparr>"

definition setDisconnectHandler :: "bool \<Rightarrow> server \<Rightarrow> server" where
  "setDisconnectHandler handler s = s\<lparr>srv_onDisconnect := handler\<rparr>"

definition setErrorHandler :: "bool \<Rightarrow> server \<Rightarrow> server" where
  "setErrorHandler handler s = s\<lparr>srv_onError := handler\<rparr>"

lemmas handler_defs = setConnectHandler_def setLineHandler_def setDisconnectHandler_def setErrorHandler_def

text \<open>The configuration calls of \<open>createListenSocket\<close> before and after the address is parsed.\<close>

definition listenOptions :: "platform \<Rightarrow> string list" where
  "listenOptions platform =
     setCloseOnExec @ setNonBlocking @ [''setsockopt SO_REUSEADDR''] @ setNoSigPipe platform"

definition bindCalls :: "16 word \<Rightarrow> string list" where
  "bindCalls port = [''bind'', ''listen''] @ (if port = 0 then [''getsockname''] else [])"

definition createListenSocket :: "world \<Rightarrow> string option \<times> world" where
  "createListenSocket w =
     (case os_socket (w_os w) of
        Inl e \<Rightarrow> (Some (system_error (strerror_of w) ''socket'' e), w)
      | Inr n \<Rightarrow>
          (let fd = int n;
               config = srv_config (w_server w);
               address = (if cfg_bindAddress config = [] then ''0.0.0.0'' else cfg_bindAddress config)
           in case config_calls (listenOptions (os_platform (w_os w))) w of
                (Some e, w1) \<Rightarrow> (Some e, close_call fd w1)
              | (None, w1) \<Rightarrow>
                  if \<not> os_inet_pton (w_os w1) address
                  then (Some ''bindAddress must be an IPv4 address'', close_call fd w1)
                  else
                    (case config_calls (bindCalls (cfg_port config)) w1 of
                       (Some e, w2) \<Rightarrow> (Some e, close_call fd w2)
                     | (None, w2) \<Rightarrow>
                         (let config' = (if cfg_port config = 0 then config\<lparr>cfg_port := os_boundPort (w_os w2)\<rparr> else config)
                          in (None, w2\<lparr>w_server := (w_server w2)\<lparr>srv_config := config', srv_listenFd := fd\<rparr>\<rparr>)))))"

definition closeListenSocket :: "world \<Rightarrow> world" where
  "closeListenSocket w =
     (let fd = srv_listenFd (w_server w) in
      if fd \<noteq> -1 then
        (let w1 = (case srv_eventManager (w_server w) of
                     None \<Rightarrow> w
                   | Some em \<Rightarrow> snd (removeFd_call em fd w));
             w2 = close_call fd w1
         in w2\<lparr>w_server := (w_server w2)\<lparr>srv_listenFd := -1\<rparr>\<rparr>)
      else w)"

definition new_EpollEventManager :: "world \<Rightarrow> (string + event_manager) \<times> world" where
  "new_EpollEventManager w =
     (case config_call ''epoll_create1'' w of
        (Some e, w1) \<Rightarrow> (Inl e, w1)
      | (None, w1) \<Rightarrow> (Inr (EpollEventManager om_empty), w1))"

definition new_KqueueEventManager :: "world \<Rightarrow> (string + event_manager) \<times> world" where
  "new_KqueueEventManager w =
     (case config_call ''kqueue'' w of
        (Some e, w1) \<Rightarrow> (Inl e, w1)
      | (None, w1) \<Rightarrow> (Inr (KqueueEventManager om_empty), w1))"

text \<open>One of the two implementations is linked, according to the platform.\<close>

definition createDefault :: "world \<Rightarrow> (string + event_manager) \<times> world" where
  "createDefault w =
     (case os_platform (w_os w) of
        Linux \<Rightarrow> new_EpollEventManager w
      | Bsd \<Rightarrow> new_KqueueEventManager w)"

lemmas createDefault_defs = createDefault_def new_EpollEventManager_def new_KqueueEventManager_def config_call_def

definition addFd_call :: "event_manager \<Rightarrow> fd \<Rightarrow> event_interest \<Rightarrow> world \<Rightarrow> string option \<times> world" where
  "addFd_call em fd interests w =
     (case em_addFd (strerror_of w) em (os_ctl (w_os w)) fd interests of
        (r, em', k') \<Rightarrow> (r, set_manager em' k' w))"

text \<open>The part of \<open>start\<close> after the event manager exists.\<close>

definition listen_with :: "event_manager \<Rightarrow> world \<Rightarrow> string option \<times> world" where
  "listen_with em w =
     (let w0 = w\<lparr>w_server := (w_server w)\<lparr>srv_eventManager := Some em\<rparr>\<rparr> in
      case createListenSocket w0 of
        (Some e, w1) \<Rightarrow> (Some e, w1)
      | (None, w1) \<Rightarrow>
          (case addFd_call em (srv_listenFd (w_server w1)) ReadInterest w1 of
             (Some e, w2) \<Rightarrow>
               (let w3 = closeListenSocket w2 in (Some e, w3\<lparr>w_server := (w_server w3)\<lparr>srv_eventManager := None\<rparr>\<rparr>))
           | (None, w2) \<Rightarrow>
               (None, w2\<lparr>w_server := (w_server w2)\<lparr>srv_stopRequested := False, srv_running := True\<rparr>\<rparr>)))"

definition start :: "world \<Rightarrow> string option \<times> world" where
  "start w =
     (if srv_running (w_server w) then (None, w)
      else
        (case srv_eventManager (w_server w) of
           Some em \<Rightarrow> listen_with em w
         | None \<Rightarrow>
             (case createDefault w of
                (Inl e, w1) \<Rightarrow> (Some e, w1)
              | (Inr em, w1) \<Rightarrow> listen_with em w1)))"

definition stop :: "world \<Rightarrow> world" where
  "stop w = w\<lparr>w_server := (w_server w)\<lparr>srv_stopRequested := True, srv_running := False\<rparr>\<rparr>"

section \<open>Accepting\<close>

definition rejectReadyClient :: "world \<Rightarrow> world" where
  "rejectReadyClient w = reportError ''connection rejected: max connection count reached'' w"

text \<open>The rest of the \<open>try\<close> block once the connection is registered.\<close>

definition admitClient :: "fd \<Rightarrow> connection \<Rightarrow> world \<Rightarrow> world" where
  "admitClient fd connection w =
     (let w1 = count_server (\<lambda>m. m\<lparr>acceptedConnections := acceptedConnections m + 1\<rparr>) w;
          w2 = (if srv_onConnect (w_server w1) then onConnect connection w1 else w1)
      in snd (refreshInterest fd w2))"

definition acceptClient :: "fd \<Rightarrow> sockaddr \<Rightarrow> world \<Rightarrow> world" where
  "acceptClient fd peer w =
     (let config = srv_config (w_server w) in
      if cfg_maxConnections config \<noteq> 0 \<and> om_size (conns w) \<ge> unat (cfg_maxConnections config)
      then close_call fd (rejectReadyClient w)
      else
        (case config_calls (setCloseOnExec @ setNonBlocking @ setNoSigPipe (os_platform (w_os w))) w of
           (Some e, w1) \<Rightarrow> reportError e (close_call fd w1)
         | (None, w1) \<Rightarrow>
             (let connection = Connection fd (formatPeerAddress peer) (cfg_maxLineLength config) (cfg_maxPendingBytes config) in
              if om_has (conns w1) fd
              then reportError ''accepted descriptor is already registered'' (closeFd connection w1)
              else
                (let w2 = set_conns (om_put fd connection (conns w1)) w1 in
                 case srv_eventManager (w_server w2) of
                   None \<Rightarrow> w2\<lparr>w_fault := True\<rparr>
                 | Some em \<Rightarrow>
                     (case addFd_call em fd ReadInterest w2 of
                        (Some e, w3) \<Rightarrow> reportError e (closeFd connection (set_conns (om_del fd (conns w3)) w3))
                      | (None, w3) \<Rightarrow> admitClient fd connection w3)))))"

fun acceptLoop :: "accept_answer list \<Rightarrow> world \<Rightarrow> accept_answer list \<times> world" where
  "acceptLoop [] w = ([], w)"
| "acceptLoop (AcceptFail e # answers) w =
     (if e = EINTR then acceptLoop answers w
      else if would_block e then (answers, w)
      else (answers, reportError (''accept: '' @ strerror_of w e) w))"
| "acceptLoop (Accepted n peer # answers) w = acceptLoop answers (acceptClient (int n) peer w)"

definition acceptReadyClients :: "world \<Rightarrow> world" where
  "acceptReadyClients w =
     (case acceptLoop (os_accept (w_os w)) w of
        (rest, w1) \<Rightarrow> w1\<lparr>w_os := (w_os w1)\<lparr>os_accept := rest\<rparr>\<rparr>)"

section \<open>The events of a client\<close>

definition readAvailable_call :: "fd \<Rightarrow> connection \<Rightarrow> world \<Rightarrow> connection \<times> read_result \<times> world" where
  "readAvailable_call fd connection w =
     (case readAvailable (strerror_of w) connection (os_recv (w_os w) fd) of
        (connection', result, rest) \<Rightarrow>
          (connection', result,
           (set_conns (om_put fd connection' (conns w)) w)\<lparr>w_os := (w_os w)\<lparr>os_recv := (os_recv (w_os w))(fd := rest)\<rparr>\<rparr>))"

definition flushPending_call :: "fd \<Rightarrow> connection \<Rightarrow> world \<Rightarrow> write_result \<times> world" where
  "flushPending_call fd connection w =
     (case flushPending (strerror_of w) connection (os_send (w_os w) fd) of
        (connection', result, taken, rest) \<Rightarrow>
          (result, (set_conns (om_put fd connection' (conns w)) w)
             \<lparr>w_os := (w_os w)\<lparr>os_send := (os_send (w_os w))(fd := rest),
                               os_output := os_output (w_os w) @ [(fd, taken)]\<rparr>\<rparr>))"

text \<open>The loop over the received lines; \<open>False\<close> when the connection disappeared meanwhile.\<close>

fun lineLoop :: "fd \<Rightarrow> connection \<Rightarrow> string list \<Rightarrow> world \<Rightarrow> bool \<times> world" where
  "lineLoop fd connection [] w = (True, w)"
| "lineLoop fd connection (line # rest) w =
     (let w1 = count_server (\<lambda>m. m\<lparr>linesReceived := linesReceived m + 1\<rparr>) w;
          w2 = (if srv_onLine (w_server w1) then onLine connection line w1 else w1)
      in case findConnection w2 fd of
           None \<Rightarrow> (False, w2)
         | Some connection' \<Rightarrow>
             if cn_closeRequested connection' then (True, w2) else lineLoop fd connection' rest w2)"

text \<open>The read half; \<open>False\<close> when the function has returned.\<close>

definition readPhase :: "fd \<Rightarrow> connection \<Rightarrow> world \<Rightarrow> bool \<times> world" where
  "readPhase fd connection w =
     (case readAvailable_call fd connection w of
        (connection', result, w1) \<Rightarrow>
          if rr_hasError result then (False, disconnect fd (rr_error result) w1)
          else
            (case lineLoop fd connection' (rr_lines result) w1 of
               (False, w2) \<Rightarrow> (False, w2)
             | (True, w2) \<Rightarrow> (True, if rr_peerClosed result then requestClose fd ''peer closed connection'' w2 else w2)))"

definition writePhase :: "fd \<Rightarrow> connection \<Rightarrow> world \<Rightarrow> bool \<times> world" where
  "writePhase fd connection w =
     (case flushPending_call fd connection w of
        (result, w1) \<Rightarrow>
          if wr_hasError result then (False, disconnect fd (wr_error result) w1)
          else (findConnection w1 fd \<noteq> None, w1))"

definition finishEvent :: "fd \<Rightarrow> event \<Rightarrow> world \<Rightarrow> world" where
  "finishEvent fd ev w =
     (case findConnection w fd of
        None \<Rightarrow> w
      | Some connection \<Rightarrow>
          if ev_hangup ev \<and> \<not> wantsWrite connection then disconnect fd ''peer hangup'' w
          else snd (refreshInterest fd w))"

definition handleClientEvent :: "event \<Rightarrow> world \<Rightarrow> world" where
  "handleClientEvent ev w =
     (case findConnection w (ev_fd ev) of
        None \<Rightarrow> w
      | Some connection \<Rightarrow>
          (let fd = cn_fd connection in
           if ev_error ev then disconnect fd (eventErrorMessage w ev) w
           else
             (case (if hasInterest (ev_interests ev) ReadInterest \<and> \<not> cn_closeRequested connection
                    then readPhase fd connection w else (True, w)) of
                (False, w1) \<Rightarrow> w1
              | (True, w1) \<Rightarrow>
                  (case findConnection w1 fd of
                     None \<Rightarrow> w1
                   | Some connection' \<Rightarrow>
                       (case (if hasInterest (ev_interests ev) WriteInterest \<and> wantsWrite connection'
                              then writePhase fd connection' w1 else (True, w1)) of
                          (False, w2) \<Rightarrow> w2
                        | (True, w2) \<Rightarrow> finishEvent fd ev w2)))))"

section \<open>One round of the loop\<close>

fun eventLoop :: "event list \<Rightarrow> world \<Rightarrow> string option \<times> world" where
  "eventLoop [] w = (None, w)"
| "eventLoop (ev # evs) w =
     (if srv_stopRequested (w_server w) then (None, w)
      else if ev_fd ev = srv_listenFd (w_server w) then
        (if ev_error ev then (Some (eventErrorMessage w ev), w)
         else eventLoop evs (if hasInterest (ev_interests ev) ReadInterest then acceptReadyClients w else w))
      else eventLoop evs (handleClientEvent ev w))"

definition effectiveTimeout :: "server_config \<Rightarrow> int \<Rightarrow> int" where
  "effectiveTimeout config timeoutMs = (if timeoutMs < 0 then cfg_eventTimeoutMs config else timeoutMs)"

text \<open>The wait itself: the call goes on record and the kernel answers, with no event when its script has run out.\<close>

definition next_wait :: "wait_call \<Rightarrow> world \<Rightarrow> wait_answer \<times> world" where
  "next_wait call w =
     (case os_wait (w_os w) of [] \<Rightarrow> Ready [] | a # _ \<Rightarrow> a,
      w\<lparr>w_os := (w_os w)\<lparr>os_wait := tl (os_wait (w_os w)), os_waits := os_waits (w_os w) @ [call]\<rparr>\<rparr>)"

definition pollOnce :: "int \<Rightarrow> world \<Rightarrow> string option \<times> world" where
  "pollOnce timeoutMs w =
     (if \<not> srv_running (w_server w) then (Some ''Server::pollOnce called before start'', w)
      else
        (case srv_eventManager (w_server w) of
           None \<Rightarrow> (None, w\<lparr>w_fault := True\<rparr>)
         | Some em \<Rightarrow>
             (case next_wait (em_wait_call em (effectiveTimeout (srv_config (w_server w)) timeoutMs)) w of
                (answer, w1) \<Rightarrow>
                  (case em_wait (strerror_of w1) em answer of
                     Inl e \<Rightarrow> (Some e, w1)
                   | Inr evs \<Rightarrow> eventLoop evs w1))))"

section \<open>Shutting down\<close>

definition queueRawTo :: "fd \<Rightarrow> string \<Rightarrow> world \<Rightarrow> bool \<times> world" where
  "queueRawTo fd bytes w =
     (case findConnection w fd of
        None \<Rightarrow> (False, w)
      | Some connection \<Rightarrow>
          (case refreshInterest fd (store_queued fd (queueRaw connection bytes) w) of
             (refreshed, w1) \<Rightarrow> (fst (queueRaw connection bytes) \<and> refreshed, w1)))"

text \<open>\<open>fds\<close> is the snapshot of the keys, in the unspecified order of the \<open>unordered_map\<close>.\<close>

definition closeAllConnections :: "fd list \<Rightarrow> world \<Rightarrow> world" where
  "closeAllConnections fds w = fold (\<lambda>fd w. disconnect fd ''server stopped'' w) fds w"

definition Server_destroy :: "fd list \<Rightarrow> world \<Rightarrow> world" where
  "Server_destroy fds w = closeListenSocket (closeAllConnections fds (stop w))"

section \<open>The blocking loop\<close>

text \<open>
  \<open>Server::run\<close>: \<open>None\<close> when the loop does not end.  \<open>order\<close> lists the keys of the connection table.
\<close>

partial_function (option) run_loop :: "world \<Rightarrow> (string option \<times> world) option" where
  "run_loop w =
     (if srv_running (w_server w) \<and> \<not> srv_stopRequested (w_server w) then
        (case pollOnce (cfg_eventTimeoutMs (srv_config (w_server w))) w of
           (Some e, w1) \<Rightarrow> Some (Some e, w1)
         | (None, w1) \<Rightarrow> run_loop w1)
      else Some (None, w))"

definition run :: "((fd, connection) omap \<Rightarrow> fd list) \<Rightarrow> world \<Rightarrow> (string option \<times> world) option" where
  "run order w =
     (case (if \<not> srv_running (w_server w) then start w else (None, w)) of
        (Some e, w1) \<Rightarrow> Some (Some e, w1)
      | (None, w1) \<Rightarrow>
          (case run_loop w1 of
             None \<Rightarrow> None
           | Some (Some e, w2) \<Rightarrow> Some (Some e, w2)
           | Some (None, w2) \<Rightarrow>
               (let w3 = w2\<lparr>w_server := (w_server w2)\<lparr>srv_running := False\<rparr>\<rparr>;
                    w4 = closeListenSocket (closeAllConnections (order (conns w3)) w3)
                in Some (None, w4\<lparr>w_server := (w_server w4)\<lparr>srv_eventManager := None\<rparr>\<rparr>))))"

end
