(* ===== verification/Server_Invariant.thy ===== *)
theory Server_Invariant
  imports Server_Loop
begin

text \<open>
  The event loop of \<open>Server_Loop\<close> keeps the service invariant: accepting a client, serving its events
  and one whole round of \<open>pollOnce\<close>.  Besides \<open>service_ok\<close> the configuration, the handlers and the run
  state of the server object stay as they are.
\<close>

section \<open>The setup of the server stays\<close>

text \<open>With a limit configured, the connections stay within it or do not exceed the number \<open>s0\<close> had.\<close>

definition capped :: "server \<Rightarrow> world \<Rightarrow> bool" where
  "capped s0 w \<longleftrightarrow>
     cfg_maxConnections (srv_config s0) = 0 \<or>
     connectionCount w \<le> max (unat (cfg_maxConnections (srv_config s0))) (om_size (srv_connections s0))"

lemma capped_self [simp]: "capped (w_server w) w"
  by (simp add: capped_def connectionCount_def)

lemma capped_cong: "om_size (conns w') = om_size (conns w) \<Longrightarrow> capped s0 w' = capped s0 w"
  by (simp add: capped_def connectionCount_def)

lemma capped_frame [simp]:
  "capped s0 (w\<lparr>w_app := a\<rparr>) = capped s0 w" "capped s0 (logEvent n fs w) = capped s0 w"
  "capped s0 (purge fd w) = capped s0 w" "capped s0 (put_client fd st w) = capped s0 w"
  by (rule capped_cong, simp)+

lemma capped_put: "findConnection w fd = Some c \<Longrightarrow> conns w' = om_put fd c' (conns w) \<Longrightarrow> capped s0 w \<Longrightarrow> capped s0 w'"
  by (simp add: capped_def connectionCount_def findConnection_def om_size_put_same)

lemma capped_shrink: "om_dom (conns w') \<subseteq> om_dom (conns w) \<Longrightarrow> capped s0 w \<Longrightarrow> capped s0 w'"
  using card_mono [of "om_dom (conns w)" "om_dom (conns w')"]
  by (auto simp: capped_def connectionCount_def om_size_card intro: order_trans)

lemma capped_requestClose: "capped s0 w \<Longrightarrow> capped s0 (requestClose fd r w)"
  by (rule capped_shrink) simp_all

definition steady :: "server \<Rightarrow> fd set \<Rightarrow> fd set \<Rightarrow> world \<Rightarrow> bool" where
  "steady s0 R E w \<longleftrightarrow> service_ok R E w \<and> same_setup s0 (w_server w) \<and> capped s0 w"

lemma same_setup_refl [simp]: "same_setup s s"
  by (simp add: same_setup_def)

lemma same_setup_trans: "same_setup a b \<Longrightarrow> same_setup b c \<Longrightarrow> same_setup a c"
  by (simp add: same_setup_def)

lemma requestClose_setup: "same_setup s0 (w_server w) \<Longrightarrow> same_setup s0 (w_server (requestClose fd r w))"
  by (auto simp: requestClose_def same_setup_def split: option.splits)

interpretation steady: relay_invariant "steady s0" for s0
proof
  fix R E E' w w' fd c
  show "steady s0 R E w \<Longrightarrow> E \<subseteq> E' \<Longrightarrow> steady s0 R E' w" using svc.mono by (auto simp: steady_def)
  show "steady s0 R E w \<Longrightarrow> findConnection w fd = None \<Longrightarrow> steady s0 R (E - {fd}) w" by (simp add: steady_def svc.absent)
  show "steady s0 R E w \<Longrightarrow> srv_onDisconnect (w_server w)" using svc.handler by (auto simp: steady_def)
  show "steady s0 R E w \<Longrightarrow> findConnection w fd = Some c \<Longrightarrow> srv_eventManager (w_server w) \<noteq> None"
    using svc.manager unfolding steady_def by blast
  show "steady s0 R E w \<Longrightarrow> findConnection w fd = Some c \<Longrightarrow> cn_fd c = fd \<and> fd \<notin> R"
    using svc.owner unfolding steady_def by blast
  show "steady s0 R E w \<Longrightarrow> undisturbed w w' \<Longrightarrow> steady s0 R E w'"
    using svc.outside [of R E w w'] capped_cong [of w' w] by (simp add: steady_def undisturbed_def)
next
  fix R E w fd c line
  show "steady s0 R E w \<Longrightarrow> findConnection w fd = Some c \<Longrightarrow>
      steady s0 R (insert fd E) (store_queued fd (queueLine c line) w)"
    unfolding steady_def
    by (auto simp: svc.queue intro: same_setup_trans [OF _ store_queued_effect(3)] capped_put)
next
  fix R E w fd c em w'
  assume *: "steady s0 R E w" "findConnection w fd = Some c" "\<not> (cn_closeRequested c \<and> \<not> wantsWrite c)"
    "srv_eventManager (w_server w) = Some em" "updateFd_call em fd (desired_interest c) w = (None, w')"
  then show "steady s0 R (E - {fd}) w'"
    using svc.refresh [of R E w fd c em w'] same_setup_trans [OF _ updateFd_call_cases(5) [OF *(5,4) desired_interest(1)]]
      updateFd_call_cases(1) [OF *(5,4) desired_interest(1)] capped_cong [of w' w s0]
    by (simp add: steady_def)
next
  fix R E w fd c em w' e
  assume *: "steady s0 R E w" "srv_eventManager (w_server w) = Some em"
    "updateFd_call em fd (desired_interest c) w = (Some e, w')"
  then show "steady s0 R E w'"
    using svc.refresh_throws [of R E w em fd c e w'] same_setup_trans [OF _ updateFd_call_cases(5) [OF *(3,2) desired_interest(1)]]
      updateFd_call_cases(1) [OF *(3,2) desired_interest(1)] capped_cong [of w' w s0]
    by (simp add: steady_def)
next
  fix R E w fd c
  show "steady s0 R E w \<Longrightarrow> findConnection w fd = Some c \<Longrightarrow> steady s0 (insert fd R) (E - {fd}) (detach fd w)"
    unfolding steady_def using capped_shrink [of "detach fd w" w s0]
    by (auto simp: svc.detach intro: same_setup_trans [OF _ detach_effect(3)])
  show "steady s0 (insert fd R) E w \<Longrightarrow> fd \<notin> R \<Longrightarrow> steady s0 R E (purge fd w)"
    by (simp add: steady_def svc.purge)
  show "steady s0 (insert fd R) E w \<Longrightarrow> fd \<notin> R \<Longrightarrow> registry_find (clients w) fd = None \<Longrightarrow> steady s0 R E w"
    unfolding steady_def using svc.unknown by blast
qed

interpretation steady_cmd: command_invariant "steady s0" for s0
proof
  fix R E w f fd r n ch line
  show "steady s0 R E w \<Longrightarrow> service_ok R E w" by (simp add: steady_def)
  show "steady s0 R E w \<Longrightarrow> steady s0 R E (count_app f w)" by (simp add: steady_def)
  show "steady s0 R E w \<Longrightarrow> fd \<in> E \<Longrightarrow> steady s0 R E (requestClose fd r w)"
    by (simp add: steady_def cmd.closing requestClose_setup capped_requestClose)
  show "steady s0 R E w \<Longrightarrow> steady s0 R E (requestClose fd r (snd (sendTo fd line w)))"
    using steady.sendTo_keeps [of s0 R E w fd line]
    by (simp add: steady_def cmd.send_closing requestClose_setup capped_requestClose)
  show "steady s0 R E w \<Longrightarrow> channel_ok (clients w) n ch \<Longrightarrow> steady s0 R E (set_channels (om_put n ch (channels w)) w)"
    by (simp add: steady_def cmd.put_channel)
  show "steady s0 R E w \<Longrightarrow> steady s0 R E (set_channels (om_del n (channels w)) w)"
    by (simp add: steady_def cmd.del_channel)
qed

interpretation steady_session: session_invariant "steady s0" actor True for s0 actor
proof
  fix R E w st st' n t
  show "steady s0 R E w \<Longrightarrow> registry_find (clients w) actor = Some st \<Longrightarrow> client_ok actor st' \<Longrightarrow>
      cs_nick st' = cs_nick st \<Longrightarrow> (cs_registered st \<Longrightarrow> cs_registered st') \<Longrightarrow>
      True \<or> cs_passOk st' = cs_passOk st \<Longrightarrow>
      window_step (os_now (w_os w)) (cs_commandWindow st) (cs_commandWindow st') \<Longrightarrow> steady s0 R E (put_client actor st' w)"
    unfolding steady_def using session.set_client [of R E w actor st st'] by simp
  show "steady s0 R E w \<Longrightarrow> registry_find (clients w) actor = Some st \<Longrightarrow> isValidNickname n \<Longrightarrow>
      findFdByNickname (clients w) n \<in> {-1, actor} \<Longrightarrow> steady s0 R E (set_clients (setNickname (clients w) actor n) w)"
    unfolding steady_def using session.renaming [of R E w actor st n] by simp
  show "steady s0 R E w \<Longrightarrow> steady s0 R E (w\<lparr>w_app := (w_app w)\<lparr>app_nextHeartbeatToken := t\<rparr>\<rparr>)"
    by (simp add: steady_def service_ok_token)
qed

interpretation steady_loop: loop_invariant "steady s0" for s0
  by unfold_locales

section \<open>Conditions that ride along\<close>

text \<open>
  Two degrees of a change that a further condition on the state may ignore.  A \<open>calm\<close> step leaves the event
  manager, the record of the registration and wait calls and the command windows alone, removes clients or adds clients that have
  not sent anything yet, and does not set the clock back.  A \<open>still\<close> step moreover leaves the channels and the
  registered clients with their nicknames alone.
\<close>

definition calm :: "world \<Rightarrow> world \<Rightarrow> bool" where
  "calm w w' \<longleftrightarrow>
     srv_eventManager (w_server w') = srv_eventManager (w_server w) \<and>
     ck_log (os_ctl (w_os w')) = ck_log (os_ctl (w_os w)) \<and> os_now (w_os w) \<le> os_now (w_os w') \<and>
     os_waits (w_os w') = os_waits (w_os w) \<and>
     (\<forall>fd st'. registry_find (clients w') fd = Some st' \<longrightarrow> cs_commandWindow st' = [] \<or>
        (\<exists>st. registry_find (clients w) fd = Some st \<and> cs_commandWindow st' = cs_commandWindow st))"

text \<open>The nickname under which a client is registered.\<close>

definition enrolled :: "irc_application \<Rightarrow> fd \<Rightarrow> string option" where
  "enrolled a fd = (case registry_find (app_clients a) fd of
     Some st \<Rightarrow> if cs_registered st then Some (cs_nick st) else None | None \<Rightarrow> None)"

definition still :: "world \<Rightarrow> world \<Rightarrow> bool" where
  "still w w' \<longleftrightarrow> calm w w' \<and> channels w' = channels w \<and> enrolled (w_app w') = enrolled (w_app w)"

lemma still_calm: "still w w' \<Longrightarrow> calm w w'"
  by (simp add: still_def)

lemma still_frame:
  assumes "srv_eventManager (w_server w') = srv_eventManager (w_server w)" and "w_app w' = w_app w"
    and "ck_log (os_ctl (w_os w')) = ck_log (os_ctl (w_os w))" and "os_now (w_os w) \<le> os_now (w_os w')"
    and "os_waits (w_os w') = os_waits (w_os w)"
  shows "still w w'"
  using assms by (simp add: still_def calm_def)

lemma still_undisturbed: "undisturbed w w' \<Longrightarrow> still w w'"
  by (simp add: still_frame undisturbed_def)

lemma still_steps:
  "still w (store_queued fd res w)" "still w (requestClose fd r w)" "still w (set_conns cs w)" "still w (count_server g w)"
  "still w (reportError e w)" "still w (close_call fd w)" "still w (closeFd c w)"
  by (rule still_frame; simp add: store_queued_effect store_queued_def Let_def close_call_def closeFd_def reportError_def)+

lemma calm_steps:
  "calm w (purge fd w)" "calm w (count_app f w)" "calm w (set_channels m w)"
  "calm w (w\<lparr>w_app := (w_app w)\<lparr>app_nextHeartbeatToken := t\<rparr>\<rparr>)" "calm w (set_clients (setNickname (clients w) fd n) w)"
  by (auto simp: calm_def purge_def find_erase find_setNickname ClientState_def split: if_splits)

text \<open>
  A \<open>round_condition\<close> survives still steps, the registration calls, the loss of a client and the lines of the clients in \<open>speakers\<close>; this is
  enough for a whole round of the event loop.  A \<open>side_condition\<close> survives every calm step and the
  recording of a command, whatever else the handlers do.
\<close>

locale call_condition =
  fixes J :: "world \<Rightarrow> bool"
  assumes update: "J w \<Longrightarrow> srv_eventManager (w_server w) = Some em \<Longrightarrow> updateFd_call em fd i w = (r, w') \<Longrightarrow> J w'"
    and removal: "J w \<Longrightarrow> srv_eventManager (w_server w) = Some em \<Longrightarrow> removeFd_call em fd w = (r, w') \<Longrightarrow> J w'"
    and addition: "J w \<Longrightarrow> srv_eventManager (w_server w) = Some em \<Longrightarrow> addFd_call em fd i w = (r, w') \<Longrightarrow> J w'"

locale still_condition = call_condition +
  assumes still: "J w \<Longrightarrow> still w w' \<Longrightarrow> J w'"
    and purging: "J w \<Longrightarrow> J (purge fd w)"
begin

abbreviation watched :: "server \<Rightarrow> fd set \<Rightarrow> fd set \<Rightarrow> world \<Rightarrow> bool" where
  "watched s0 R E w \<equiv> steady s0 R E w \<and> J w"

lemmas stills = still_steps [THEN still [rotated]]

lemma detaching:
  assumes "J w"
  shows "J (detach fd w)"
proof -
  let ?w1 = "case srv_eventManager (w_server w) of None \<Rightarrow> w
    | Some em \<Rightarrow> (case removeFd_call em fd w of (None, w') \<Rightarrow> w' | (Some what, w') \<Rightarrow> reportError what w')"
  have "J ?w1" using assms by (auto split: option.splits prod.splits intro: stills removal)
  moreover have "still ?w1 (detach fd w)" unfolding detach_def Let_def by (rule still_frame) simp_all
  ultimately show ?thesis by (rule still)
qed

end

sublocale still_condition \<subseteq> watching: relay_invariant "watched s0" for s0
proof
  fix R E E' w w' fd c
  show "watched s0 R E w \<Longrightarrow> E \<subseteq> E' \<Longrightarrow> watched s0 R E' w" using steady.mono by blast
  show "watched s0 R E w \<Longrightarrow> findConnection w fd = None \<Longrightarrow> watched s0 R (E - {fd}) w" by (simp add: steady.absent)
  show "watched s0 R E w \<Longrightarrow> srv_onDisconnect (w_server w)" using steady.handler by blast
  show "watched s0 R E w \<Longrightarrow> findConnection w fd = Some c \<Longrightarrow> srv_eventManager (w_server w) \<noteq> None" using steady.manager by blast
  show "watched s0 R E w \<Longrightarrow> findConnection w fd = Some c \<Longrightarrow> cn_fd c = fd \<and> fd \<notin> R" using steady.owner by blast
  show "watched s0 R E w \<Longrightarrow> undisturbed w w' \<Longrightarrow> watched s0 R E w'" using steady.outside still still_undisturbed by blast
  show "watched s0 R E w \<Longrightarrow> findConnection w fd = Some c \<Longrightarrow> watched s0 (insert fd R) (E - {fd}) (detach fd w)"
    by (simp add: steady.detach detaching)
  show "watched s0 (insert fd R) E w \<Longrightarrow> fd \<notin> R \<Longrightarrow> watched s0 R E (purge fd w)" by (simp add: steady.purge purging)
  show "watched s0 (insert fd R) E w \<Longrightarrow> fd \<notin> R \<Longrightarrow> registry_find (clients w) fd = None \<Longrightarrow> watched s0 R E w"
    using steady.unknown by blast
next
  fix R E w fd c line
  show "watched s0 R E w \<Longrightarrow> findConnection w fd = Some c \<Longrightarrow> watched s0 R (insert fd E) (store_queued fd (queueLine c line) w)"
    by (simp add: steady.queue stills)
next
  fix R E w fd c em w'
  show "watched s0 R E w \<Longrightarrow> findConnection w fd = Some c \<Longrightarrow> \<not> (cn_closeRequested c \<and> \<not> wantsWrite c) \<Longrightarrow>
      srv_eventManager (w_server w) = Some em \<Longrightarrow> updateFd_call em fd (desired_interest c) w = (None, w') \<Longrightarrow>
      watched s0 R (E - {fd}) w'" using steady.refresh update by blast
  show "watched s0 R E w \<Longrightarrow> srv_eventManager (w_server w) = Some em \<Longrightarrow>
      updateFd_call em fd (desired_interest c) w = (Some e, w') \<Longrightarrow> watched s0 R E w'" for e
    using steady.refresh_throws update by blast
qed

locale round_condition = still_condition +
  fixes speakers :: "fd set"
  assumes line: "watched s0 {} E w \<Longrightarrow> findConnection w (cn_fd c) = Some c' \<Longrightarrow> cn_fd c \<in> E \<Longrightarrow> cn_fd c \<in> speakers \<Longrightarrow>
      J (onLine c l w)"

locale side_condition = call_condition +
  assumes calm: "J w \<Longrightarrow> calm w w' \<Longrightarrow> J w'"
    and recording: "J w \<Longrightarrow> registry_find (clients w) fd = Some st \<Longrightarrow>
      window_step (os_now (w_os w)) (cs_commandWindow st) (cs_commandWindow st') \<Longrightarrow> J (put_client fd st' w)"
begin

lemmas steps = calm_steps [THEN calm [rotated]]

end

sublocale side_condition \<subseteq> still_condition
proof
  show "J w \<Longrightarrow> still w w' \<Longrightarrow> J w'" for w w' by (auto intro: calm still_calm)
qed (rule steps)

sublocale side_condition \<subseteq> commanded: command_invariant "watched s0" for s0
proof
  fix R E w f fd r n ch line
  show "watched s0 R E w \<Longrightarrow> service_ok R E w" by (simp add: steady_def)
  show "watched s0 R E w \<Longrightarrow> watched s0 R E (count_app f w)" by (simp add: steady_cmd.counting steps)
  show "watched s0 R E w \<Longrightarrow> fd \<in> E \<Longrightarrow> watched s0 R E (requestClose fd r w)" by (simp add: steady_cmd.closing stills)
  show "watched s0 R E w \<Longrightarrow> watched s0 R E (requestClose fd r (snd (sendTo fd line w)))"
    using watching.sendTo_keeps [of s0 R E w fd line] by (simp add: steady_cmd.send_closing stills)
  show "watched s0 R E w \<Longrightarrow> channel_ok (clients w) n ch \<Longrightarrow> watched s0 R E (set_channels (om_put n ch (channels w)) w)"
    by (simp add: steady_cmd.put_channel steps)
  show "watched s0 R E w \<Longrightarrow> watched s0 R E (set_channels (om_del n (channels w)) w)"
    by (simp add: steady_cmd.del_channel steps)
qed

sublocale side_condition \<subseteq> attending: session_invariant "watched s0" actor True for s0 actor
proof
  fix R E w st st' n t
  show "watched s0 R E w \<Longrightarrow> registry_find (clients w) actor = Some st \<Longrightarrow> client_ok actor st' \<Longrightarrow>
      cs_nick st' = cs_nick st \<Longrightarrow> (cs_registered st \<Longrightarrow> cs_registered st') \<Longrightarrow>
      True \<or> cs_passOk st' = cs_passOk st \<Longrightarrow>
      window_step (os_now (w_os w)) (cs_commandWindow st) (cs_commandWindow st') \<Longrightarrow> watched s0 R E (put_client actor st' w)"
    using steady_session.set_client [of s0 R E w actor st st'] recording by blast
  show "watched s0 R E w \<Longrightarrow> registry_find (clients w) actor = Some st \<Longrightarrow> isValidNickname n \<Longrightarrow>
      findFdByNickname (clients w) n \<in> {-1, actor} \<Longrightarrow> watched s0 R E (set_clients (setNickname (clients w) actor n) w)"
    by (simp add: steady_session.renaming steps)
  show "watched s0 R E w \<Longrightarrow> watched s0 R E (w\<lparr>w_app := (w_app w)\<lparr>app_nextHeartbeatToken := t\<rparr>\<rparr>)"
    by (simp add: steady_session.token steps)
qed

sublocale side_condition \<subseteq> rounds: loop_invariant "watched s0" for s0
  by unfold_locales

sublocale side_condition \<subseteq> round_condition J UNIV
  by unfold_locales (use attending.onLine in \<open>blast\<close>)

section \<open>Frames\<close>

lemma config_calls_undisturbed: "config_calls ws w = (r, w') \<Longrightarrow> undisturbed w w'"
proof (induction ws arbitrary: w)
  case (Cons x ws)
  then show ?case
    by (fastforce simp: config_call_def undisturbed_def split: prod.splits option.splits)
qed (simp add: undisturbed_def)

lemma config_calls_frame:
  "config_calls ws w = (r, w') \<Longrightarrow> w_server w' = w_server w \<and> w_app w' = w_app w \<and> w_fault w' = w_fault w"
  using config_calls_undisturbed by (auto simp: undisturbed_def)

text \<open>Registering a new descriptor with the event manager does not disturb the connections.\<close>

lemma addFd_call_cases:
  assumes "addFd_call em fd i w = (r, w')" and "srv_eventManager (w_server w) = Some em" and "i \<noteq> NoInterest"
  shows "conns w' = conns w" and "w_app w' = w_app w" and "w_fault w' = w_fault w"
    and "srv_metrics (w_server w') = srv_metrics (w_server w)" and "same_setup (w_server w) (w_server w')"
    and "srv_eventManager (w_server w') \<noteq> None"
    and "interest_of w' = (if r = None then (interest_of w)(fd \<mapsto> i) else interest_of w)"
proof -
  obtain em' k' where u: "em_addFd (strerror_of w) em (os_ctl (w_os w)) fd i = (r, em', k')"
    and w': "w' = set_manager em' k' w"
    using assms(1) by (auto simp: addFd_call_def split: prod.splits)
  show "conns w' = conns w" "w_app w' = w_app w" "w_fault w' = w_fault w"
    "srv_metrics (w_server w') = srv_metrics (w_server w)" "same_setup (w_server w) (w_server w')"
    "srv_eventManager (w_server w') \<noteq> None"
    unfolding w' by (simp_all add: set_manager_def same_setup_def)
  show "interest_of w' = (if r = None then (interest_of w)(fd \<mapsto> i) else interest_of w)"
    using u assms(2,3) emgr.add_ok [OF assms(3), of "strerror_of w" em "os_ctl (w_os w)" fd em' k']
      emgr.add_throws [of "strerror_of w" em "os_ctl (w_os w)" fd i _ em' k']
    by (cases r) (auto simp: w' interest_of_def fun_eq_iff)
qed

section \<open>Accepting\<close>

text \<open>The new connection, its registration and its client state appear together.\<close>

lemma steady_connected:
  assumes ok: "steady s0 {} {} w" and fresh: "findConnection w fd = None" and "0 \<le> fd"
    and slot: "cfg_maxConnections (srv_config s0) \<noteq> 0 \<Longrightarrow> om_size (conns w) < unat (cfg_maxConnections (srv_config s0))"
    and c: "c = Connection fd peer ml mp"
    and w3: "conns w3 = om_put fd c (conns w)" "w_app w3 = w_app w" "w_fault w3 = w_fault w"
      "srv_metrics (w_server w3) = srv_metrics (w_server w)" "same_setup (w_server w) (w_server w3)"
      "srv_eventManager (w_server w3) \<noteq> None" "interest_of w3 = (interest_of w)(fd \<mapsto> ReadInterest)"
    and w4: "w4 = count_server (\<lambda>m. m\<lparr>acceptedConnections := acceptedConnections m + 1\<rparr>) w3"
  shows "steady s0 {} {fd} (onConnect c w4)" and "srv_onConnect (w_server w4)" and "still w3 (onConnect c w4)"
proof -
  from ok have sok: "service_ok {} {} w" by (simp add: steady_def)
  then have "srv_onConnect (w_server w)" by (simp add: service_ok_def server_ok_def)
  with w3(5) show "srv_onConnect (w_server w4)" by (simp add: same_setup_def w4)
  obtain now w5 where clk: "clock_now w4 = (now, w5)" by fastforce
  note f = clock_now_frame [OF clk, unfolded w4] and u = clock_now_undisturbed [OF clk, unfolded w4]
  obtain st where on: "onConnect c w4 = logEvent ''client_connected'' [(''fd'', show_int fd), (''peer'', peer)] (put_client fd st w5)"
    and st: "cs_fd st = fd" "\<not> cs_registered st" "\<not> cs_hasNick st" "cs_nick st = []" "cs_commandWindow st = []"
    by (auto simp: onConnect_def clk c Connection_def ClientState_def)
  have none: "registry_find (clients w) fd = None"
    using sok fresh by (auto simp: service_ok_def dest: app_okD(3) [of _ _ fd])
  have inv: "registry_inv (registry_set (clients w) fd st)"
    using sok none \<open>0 \<le> fd\<close> st(4) by (intro registry_set_fresh_inv) (auto simp: service_ok_def dest: app_okD(1))
  have conn: "findConnection (put_client fd st w5) g = (if g = fd then Some c else findConnection w g)" for g
    using f w3(1) by (simp add: findConnection_def)
  have "channel_ok (registry_set (clients w) fd st) n ch" if "channel_ok (clients w) n ch" for n ch
    using that none by (fastforce simp: channel_ok_def find_set)
  moreover have "clients (put_client fd st w5) = registry_set (clients w) fd st" "channels (put_client fd st w5) = channels w"
    using f w3(2) by (simp_all add: put_client_def)
  ultimately have "app_ok {} (put_client fd st w5)"
    using sok inv none st
    by (auto simp: service_ok_def app_ok_def conn find_set client_ok_def)
  moreover have size: "om_size (om_put fd c (conns w)) = Suc (om_size (conns w))"
    using fresh by (simp add: om_size_card findConnection_def domIff)
  moreover have "interest_of (put_client fd st w5) = interest_of w3"
    using f by (simp add: interest_of_def fun_eq_iff)
  ultimately have "service_ok {} {fd} (put_client fd st w5)"
    using sok f w3 \<open>0 \<le> fd\<close>
    by (auto simp: service_ok_def server_ok_def conn connectionCount_def attended_def same_setup_def c Connection_def)
  moreover have "same_setup s0 (w_server (put_client fd st w5))"
    using ok f w3(5) by (simp add: steady_def same_setup_def)
  moreover have "capped s0 (put_client fd st w5)"
    using slot f w3(1) size by (fastforce simp: capped_def connectionCount_def)
  ultimately show "steady s0 {} {fd} (onConnect c w4)"
    unfolding on by (intro steady.log) (simp add: steady_def)
  show "still w3 (onConnect c w4)"
    using u st(2,5) none w3(2) f unfolding on
    by (auto simp: still_def calm_def enrolled_def fun_eq_iff undisturbed_def put_client_def find_set)
qed

context round_condition
begin

lemma served:
  assumes "watched s0 {} E w" and "findConnection w (cn_fd c) = Some c'" and "cn_fd c \<in> E" and "cn_fd c \<in> speakers"
  shows "watched s0 {} E (onLine c l w)"
  using assms steady_session.onLine [of s0 E w c c' "cn_fd c" l] line [of s0 E w c c' l] by simp

lemma closing: "watched s0 R E w \<Longrightarrow> fd \<in> E \<Longrightarrow> watched s0 R E (requestClose fd r w)"
  by (simp add: steady_cmd.closing stills)

lemma closed: "watched s0 R E w \<Longrightarrow> watched s0 R E (close_call fd w)"
  by (rule watching.outside [of s0 R E w]) (simp_all add: close_call_def undisturbed_def)

lemma admit:
  assumes ok: "watched s0 {} {} w" and fresh: "findConnection w fd = None" and "0 \<le> fd"
    and slot: "cfg_maxConnections (srv_config s0) \<noteq> 0 \<Longrightarrow> om_size (conns w) < unat (cfg_maxConnections (srv_config s0))"
    and c: "c = Connection fd peer ml mp"
    and w3: "conns w3 = om_put fd c (conns w)" "w_app w3 = w_app w" "w_fault w3 = w_fault w"
      "srv_metrics (w_server w3) = srv_metrics (w_server w)" "same_setup (w_server w) (w_server w3)"
      "srv_eventManager (w_server w3) \<noteq> None" "interest_of w3 = (interest_of w)(fd \<mapsto> ReadInterest)"
    and side: "J w3"
  shows "watched s0 {} {} (admitClient fd c w3)"
proof -
  let ?w4 = "count_server (\<lambda>m. m\<lparr>acceptedConnections := acceptedConnections m + 1\<rparr>) w3"
  note s = steady_connected [OF conjunct1 [OF ok] fresh \<open>0 \<le> fd\<close> slot c w3 refl]
  have "watched s0 {} {fd} (onConnect c ?w4)" using s(1) still [OF side s(3)] by blast
  then have "watched s0 {} ({fd} - {fd}) (snd (refreshInterest fd (onConnect c ?w4)))" by (rule watching.refreshInterest)
  with s(2) show ?thesis by (simp add: admitClient_def)
qed

lemma acceptClient:
  assumes ok: "watched s0 {} {} w" and "0 \<le> fd" and run: "srv_running s0"
  shows "watched s0 {} {} (acceptClient fd peer w)"
proof -
  obtain r w1 where calls: "config_calls (setCloseOnExec @ setNonBlocking @ setNoSigPipe (os_platform (w_os w))) w = (r, w1)"
    by fastforce
  note f = config_calls_frame [OF calls]
  have ok1: "watched s0 {} {} w1" using watching.outside [OF ok config_calls_undisturbed [OF calls]] .
  let ?c = "Connection fd (formatPeerAddress peer) (cfg_maxLineLength (srv_config (w_server w))) (cfg_maxPendingBytes (srv_config (w_server w)))"
  let ?w2 = "set_conns (om_put fd ?c (conns w1)) w1"
  from ok1 run obtain em where em: "srv_eventManager (w_server w1) = Some em"
    by (auto simp: steady_def same_setup_def service_ok_def server_ok_def)
  obtain r3 w3 where a: "addFd_call em fd ReadInterest ?w2 = (r3, w3)" by fastforce
  have em2: "srv_eventManager (w_server ?w2) = Some em" using em by simp
  note g = addFd_call_cases [OF a em2 interest_values(1)]
  have "J ?w2" using ok1 stills(3) by blast
  then have side: "J w3" using addition [OF _ em2 a] by blast
  let ?max = "cfg_maxConnections (srv_config (w_server w))"
  have max: "?max = cfg_maxConnections (srv_config s0)" using ok by (simp add: steady_def same_setup_def)
  have new: "watched s0 {} {} (admitClient fd ?c w3)"
    if "findConnection w1 fd = None" "r3 = None" "\<not> (?max \<noteq> 0 \<and> om_size (conns w) \<ge> unat ?max)"
    by (rule admit [OF ok1 that(1) \<open>0 \<le> fd\<close> _ refl])
       (use g that(2,3) f max side in \<open>auto simp: same_setup_def interest_of_def fun_eq_iff\<close>)
  have undone: "watched s0 {} {} (closeFd ?c (set_conns (om_del fd (conns w3)) w3))"
    if none: "findConnection w1 fd = None" and "r3 = Some e" for e
  proof -
    let ?w4 = "set_conns (om_del fd (conns w3)) w3"
    have c4: "conns ?w4 = conns w1" using g(1) none by (intro om_eqI) (simp add: findConnection_def)
    have i4: "interest_of ?w4 = interest_of w1" using g(7) that(2) by (simp add: interest_of_def fun_eq_iff)
    have "server_ok {} ?w4"
      using ok1 g c4 i4 em
      by (auto simp: steady_def service_ok_def server_ok_def findConnection_def connectionCount_def attended_def same_setup_def)
    moreover have "app_ok {} ?w4"
      using ok1 g(2) c4 app_ok_cong [of ?w4 w1 "{}"] by (simp add: steady_def service_ok_def)
    ultimately have "steady s0 {} {} ?w4"
      using ok1 g(5) c4 capped_cong [of ?w4 w1 s0] by (auto simp: steady_def service_ok_def same_setup_def)
    then have "watched s0 {} {} ?w4" using side stills(3) by blast
    then show ?thesis by (rule watching.close)
  qed
  have "watched s0 {} {} (case addFd_call em fd ReadInterest ?w2 of
      (Some e, w3) \<Rightarrow> reportError e (closeFd ?c (set_conns (om_del fd (conns w3)) w3)) | (None, w3) \<Rightarrow> admitClient fd ?c w3)"
    if "findConnection w1 fd = None" "\<not> (?max \<noteq> 0 \<and> om_size (conns w) \<ge> unat ?max)"
    using new [OF that(1) _ that(2)] watching.report [OF undone [OF that(1)]] a by (cases r3) simp_all
  moreover note refused = closed [OF watching.report [OF ok]] watching.report [OF closed [OF ok1]]
    watching.report [OF watching.close [OF ok1]]
  ultimately show ?thesis
    using calls em unfolding acceptClient_def Let_def rejectReadyClient_def
    by (cases r) (auto simp: findConnection_def refused)
qed

lemma acceptLoop:
  "watched s0 {} {} w \<Longrightarrow> srv_running s0 \<Longrightarrow> watched s0 {} {} (snd (acceptLoop as w))"
  by (induction as w rule: acceptLoop.induct) (auto simp: watching.report acceptClient)

lemma acceptReadyClients:
  assumes "watched s0 {} {} w" and "srv_running s0"
  shows "watched s0 {} {} (acceptReadyClients w)"
proof -
  obtain rest w1 where l: "acceptLoop (os_accept (w_os w)) w = (rest, w1)" by fastforce
  with acceptLoop [OF assms, of "os_accept (w_os w)"] have "watched s0 {} {} w1" by simp
  then show ?thesis
    unfolding acceptReadyClients_def l prod.case by (rule watching.outside) (simp_all add: undisturbed_def)
qed

end

section \<open>Reading and writing one connection\<close>

definition same_output :: "connection \<Rightarrow> connection \<Rightarrow> bool" where
  "same_output c c' \<longleftrightarrow> cn_fd c' = cn_fd c \<and> cn_writeBuffer c' = cn_writeBuffer c \<and> cn_writeOffset c' = cn_writeOffset c"

lemma extractLines_output: "extractLines c r = (b, c', r') \<Longrightarrow> same_output c c'"
proof (induction c r rule: extractLines.induct)
  case (1 c result)
  then show ?case
    by (subst (asm) (2) extractLines.simps)
       (fastforce simp: Let_def same_output_def conn_requestClose_def split: option.splits if_splits)
qed

lemma recvLoop_output: "recvLoop strerror c r script = (c', r', rest) \<Longrightarrow> same_output c c'"
proof (induction strerror c r script rule: recvLoop.induct)
  case (2 strerror c result buffer script)
  then show ?case
    by (auto simp: same_output_def conn_requestClose_def split: if_splits prod.splits dest!: extractLines_output)
qed (auto simp: same_output_def conn_requestClose_def Let_def split: if_splits)

lemma sendLoop_fd: "sendLoop strerror c r out script = (c', r', out', rest) \<Longrightarrow> cn_fd c' = cn_fd c"
  by (induction strerror c r out script rule: sendLoop.induct)
     (auto simp: Let_def conn_requestClose_def split: if_splits send_answer.splits)

lemma flushPending_frame:
  assumes "flushPending strerror c script = (c', r, out, rest)" and "cn_writeOffset c \<le> length (cn_writeBuffer c)"
  shows "cn_fd c' = cn_fd c" and "cn_writeOffset c' \<le> length (cn_writeBuffer c')"
proof -
  obtain c1 r1 out1 s1 where loop: "sendLoop strerror c WriteResult [] script = (c1, r1, out1, s1)"
    by (metis prod_cases4)
  from sendLoop_stream [OF assms(2) loop] sendLoop_fd [OF loop] assms(1)
  show "cn_fd c' = cn_fd c" "cn_writeOffset c' \<le> length (cn_writeBuffer c')"
    by (auto simp: flushPending_def loop split: if_splits)
qed

text \<open>Replacing the connection that is being served makes only its own interest stale.\<close>

lemma steady_replace:
  assumes ok: "steady s0 {} E w" and conn: "findConnection w fd = Some c"
    and c': "cn_fd c' = cn_fd c" "cn_writeOffset c' \<le> length (cn_writeBuffer c')"
    and w': "w_server w' = (w_server w)\<lparr>srv_connections := om_put fd c' (conns w)\<rparr>" "w_app w' = w_app w" "w_fault w' = w_fault w"
  shows "steady s0 {} (insert fd E) w'"
proof -
  from ok have s: "server_ok E w" "app_ok {} w" "same_setup s0 (w_server w)" "capped s0 w"
    by (simp_all add: steady_def service_ok_def)
  have "capped s0 w'" by (rule capped_put [OF conn _ s(4)]) (simp add: w'(1))
  moreover
  have "server_ok (insert fd E) w'"
    by (rule server_ok_replace [OF s(1) conn c']) (simp_all add: w' same_setup_def)
  moreover have "app_ok {} w'"
    using s(2) conn app_ok_cong [of w' w "{}"] by (simp add: w' findConnection_def insert_absorb domI)
  ultimately show ?thesis using s(3) by (simp add: steady_def service_ok_def w' same_setup_def)
qed

lemma steady_count_line: "steady s0 R E (count_server (\<lambda>m. m\<lparr>linesReceived := k m\<rparr>) w) = steady s0 R E w"
proof -
  let ?w = "count_server (\<lambda>m. m\<lparr>linesReceived := k m\<rparr>) w"
  have "findConnection ?w = findConnection w" "interest_of ?w = interest_of w"
    by (simp_all add: findConnection_def interest_of_def fun_eq_iff)
  then have "server_ok E ?w = server_ok E w" by (simp add: server_ok_def connectionCount_def attended_def)
  moreover have "app_ok R ?w = app_ok R w" using app_ok_cong [of ?w w R] by simp
  moreover have "capped s0 ?w = capped s0 w" by (rule capped_cong) simp
  ultimately show ?thesis by (simp add: steady_def service_ok_def same_setup_def)
qed

context round_condition
begin

lemma replace_conn:
  assumes "watched s0 {} E w" and "findConnection w fd = Some c"
    and "cn_fd c' = cn_fd c" "cn_writeOffset c' \<le> length (cn_writeBuffer c')"
    and "w_server w' = (w_server w)\<lparr>srv_connections := om_put fd c' (conns w)\<rparr>" "w_app w' = w_app w" "w_fault w' = w_fault w"
    and "ck_log (os_ctl (w_os w')) = ck_log (os_ctl (w_os w))" "os_now (w_os w') = os_now (w_os w)"
      "os_waits (w_os w') = os_waits (w_os w)"
  shows "watched s0 {} (insert fd E) w'"
proof -
  have "still w w'" using assms(5,6,8-10) by (simp add: still_frame)
  with assms(1) have "J w'" using still by blast
  with steady_replace [OF conjunct1 [OF assms(1)] assms(2-7)] show ?thesis by blast
qed

lemma offset: "watched s0 R E w \<Longrightarrow> findConnection w fd = Some c \<Longrightarrow> cn_writeOffset c \<le> length (cn_writeBuffer c)"
  by (auto simp: steady_def service_ok_def dest: server_okD(3))

lemma read_conn:
  assumes ok: "watched s0 {} E w" and conn: "findConnection w fd = Some c"
    and r: "readAvailable_call fd c w = (c', r, w')"
  shows "watched s0 {} (insert fd E) w'" and "findConnection w' fd = Some c'" and "cn_fd c' = cn_fd c"
proof -
  from r obtain rest where a: "readAvailable (strerror_of w) c (os_recv (w_os w) fd) = (c', r, rest)"
    by (auto simp: readAvailable_call_def split: prod.splits)
  then have so: "same_output c c'" by (auto simp: readAvailable_def dest: recvLoop_output)
  then show "cn_fd c' = cn_fd c" by (simp add: same_output_def)
  show "watched s0 {} (insert fd E) w'"
    by (rule replace_conn [OF ok conn, of c'])
       (use so a r offset [OF ok conn] in \<open>auto simp: same_output_def readAvailable_call_def\<close>)
  show "findConnection w' fd = Some c'" using a r by (auto simp: readAvailable_call_def findConnection_def)
qed

lemma flush_conn:
  assumes ok: "watched s0 {} E w" and conn: "findConnection w fd = Some c"
    and r: "flushPending_call fd c w = (r, w')"
  shows "watched s0 {} (insert fd E) w'"
proof -
  obtain c' r' out rest where a: "flushPending (strerror_of w) c (os_send (w_os w) fd) = (c', r', out, rest)"
    by (metis prod_cases4)
  show ?thesis
    by (rule replace_conn [OF ok conn, of c'])
       (use a r flushPending_frame [OF a offset [OF ok conn]] in \<open>auto simp: flushPending_call_def\<close>)
qed

section \<open>One event of a client\<close>

lemma count_line: "watched s0 R E w \<Longrightarrow> watched s0 R E (count_server (\<lambda>m. m\<lparr>linesReceived := k m\<rparr>) w)"
  by (simp add: steady_count_line stills)

lemma lineLoop:
  assumes "watched s0 {} {fd} w" and "findConnection w fd = Some c" and "cn_fd c = fd" and "fd \<in> speakers"
  shows "watched s0 {} {fd} (snd (lineLoop fd c ls w)) \<and>
    (fst (lineLoop fd c ls w) \<longleftrightarrow> findConnection (snd (lineLoop fd c ls w)) fd \<noteq> None)"
  using assms
proof (induction ls arbitrary: c w)
  case (Cons l ls)
  let ?w1 = "count_server (\<lambda>m. m\<lparr>linesReceived := linesReceived m + 1\<rparr>) w"
  let ?w2 = "if srv_onLine (w_server ?w1) then onLine c l ?w1 else ?w1"
  have "watched s0 {} {fd} ?w1" by (rule count_line [OF Cons.prems(1)])
  moreover have "findConnection ?w1 fd = Some c" using Cons.prems(2) by (simp add: findConnection_def)
  ultimately have ok2: "watched s0 {} {fd} ?w2"
    using Cons.prems(3,4) served [of s0 "{fd}" ?w1 c c l] by simp
  show ?case
  proof (cases "findConnection ?w2 fd")
    case None
    with ok2 show ?thesis by (auto simp: Let_def)
  next
    case (Some c')
    have "cn_fd c' = fd" using ok2 Some by (auto simp: steady_def service_ok_def dest: server_okD(1))
    with Cons.IH [OF ok2 Some] Cons.prems(4) ok2 Some show ?thesis by (auto simp: Let_def)
  qed
qed simp

lemma readPhase:
  assumes ok: "watched s0 {} {} w" and conn: "findConnection w fd = Some c" and "cn_fd c = fd" and "fd \<in> speakers"
    and r: "readPhase fd c w = (b, w')"
  shows "watched s0 {} (if b then {fd} else {}) w'"
proof -
  obtain c' res w1 where a: "readAvailable_call fd c w = (c', res, w1)" by (metis prod_cases3)
  note ra = read_conn [OF ok conn a]
  obtain b2 w2 where l: "lineLoop fd c' (rr_lines res) w1 = (b2, w2)" by fastforce
  have ll: "watched s0 {} {fd} w2" "b2 \<longleftrightarrow> findConnection w2 fd \<noteq> None"
    using lineLoop [of s0 fd w1 c' "rr_lines res"] ra \<open>cn_fd c = fd\<close> \<open>fd \<in> speakers\<close> l by simp_all
  have gone: "watched s0 {} {} w2" if "\<not> b2"
    using watching.absent [OF ll(1), of fd] ll(2) that by simp
  have "watched s0 {} {} (disconnect fd (rr_error res) w1)"
    using watching.disconnect [OF ra(1), of fd] by simp
  with r a l ll(1) gone show ?thesis
    by (auto simp: readPhase_def split: if_splits bool.splits intro!: closing)
qed

lemma writePhase:
  assumes ok: "watched s0 {} E w" and conn: "findConnection w fd = Some c" and E: "E \<subseteq> {fd}"
    and r: "writePhase fd c w = (b, w')"
  shows "watched s0 {} (if b then {fd} else {}) w'"
proof -
  obtain res w1 where a: "flushPending_call fd c w = (res, w1)" by fastforce
  have w1: "watched s0 {} {fd} w1" using E by (intro watching.mono [OF flush_conn [OF ok conn a]]) auto
  have "watched s0 {} {} (disconnect fd (wr_error res) w1)"
    using watching.disconnect [OF w1, of fd] by simp
  moreover have "watched s0 {} {} w1" if "findConnection w1 fd = None"
    using watching.absent [OF w1 that] by simp
  ultimately show ?thesis using r a w1 by (auto simp: writePhase_def split: if_splits)
qed

lemma finishEvent:
  assumes ok: "watched s0 {} E w" and E: "E \<subseteq> {fd}"
  shows "watched s0 {} {} (finishEvent fd ev w)"
proof (cases "findConnection w fd")
  case None
  have "E - {fd} = {}" using E by auto
  with watching.absent [OF ok None] None show ?thesis by (simp add: finishEvent_def)
next
  case (Some c)
  have "E - {fd} = {}" using E by auto
  with watching.disconnect [OF ok, of fd] watching.refreshInterest [OF ok, of fd] Some show ?thesis
    by (simp add: finishEvent_def)
qed

lemma handleClientEvent:
  assumes ok: "watched s0 {} {} w" and speaks: "hasInterest (ev_interests ev) ReadInterest \<Longrightarrow> ev_fd ev \<in> speakers"
  shows "watched s0 {} {} (handleClientEvent ev w)"
proof (cases "findConnection w (ev_fd ev)")
  case None
  with ok show ?thesis by (simp add: handleClientEvent_def)
next
  case (Some c)
  let ?fd = "ev_fd ev"
  have c: "cn_fd c = ?fd" using ok Some by (auto simp: steady_def service_ok_def dest: server_okD(1))
  have err: "watched s0 {} {} (disconnect ?fd r w)" for r
    using watching.disconnect [OF ok, of ?fd] by simp
  obtain b w1 where r: "(if hasInterest (ev_interests ev) ReadInterest \<and> \<not> cn_closeRequested c
      then readPhase ?fd c w else (True, w)) = (b, w1)" by fastforce
  have w1: "watched s0 {} (if b then {?fd} else {}) w1"
    using r readPhase [OF ok Some c speaks] watching.mono [OF ok, of "{?fd}"] by (auto split: if_splits)
  have writes: "watched s0 {} {} (case (if hasInterest (ev_interests ev) WriteInterest \<and> wantsWrite c'
      then writePhase ?fd c' w1 else (True, w1)) of (False, w2) \<Rightarrow> w2 | (True, w2) \<Rightarrow> finishEvent ?fd ev w2)"
    if "b" "findConnection w1 ?fd = Some c'" for c'
  proof -
    obtain b2 w2 where p: "(if hasInterest (ev_interests ev) WriteInterest \<and> wantsWrite c'
      then writePhase ?fd c' w1 else (True, w1)) = (b2, w2)" by fastforce
    have "watched s0 {} (if b2 then {?fd} else {}) w2"
      using p w1 that writePhase [of s0 "{?fd}" w1 ?fd c'] by (auto split: if_splits)
    with finishEvent [of s0 "{?fd}" w2 ?fd ev] show ?thesis unfolding p by (cases b2) simp_all
  qed
  have gone: "watched s0 {} {} w1" if "\<not> b \<or> findConnection w1 ?fd = None"
    using that w1 watching.absent [OF w1, of ?fd] by (auto split: if_splits)
  show ?thesis
    unfolding handleClientEvent_def Some option.case Let_def c r
    using err writes gone by (cases b) (auto split: option.splits)
qed

section \<open>One round of the event loop\<close>

lemma eventLoop:
  "watched s0 {} {} w \<Longrightarrow> srv_running s0 \<Longrightarrow> (\<And>ev. ev \<in> set evs \<Longrightarrow> ev_fd ev \<in> speakers) \<Longrightarrow>
   watched s0 {} {} (snd (eventLoop evs w))"
  by (induction evs w rule: eventLoop.induct)
     (auto simp: acceptReadyClients handleClientEvent)

end

text \<open>The wait call puts itself on record, which a condition for the whole round has to allow.\<close>

lemma steady_os: "steady s0 R E w \<Longrightarrow> steady s0 R E (w\<lparr>w_os := os\<rparr>)"
  using server_ok_cong [of "w\<lparr>w_os := os\<rparr>" w E] app_ok_cong [of "w\<lparr>w_os := os\<rparr>" w R] capped_cong [of "w\<lparr>w_os := os\<rparr>" w s0]
  by (simp add: steady_def service_ok_def)

locale poll_condition = round_condition J UNIV for J +
  assumes waiting: "J w \<Longrightarrow> J (snd (next_wait call w))"
begin

lemma pollOnce:
  assumes ok: "watched s0 {} {} w"
  shows "watched s0 {} {} (snd (pollOnce timeoutMs w))"
proof (cases "srv_running (w_server w)")
  case False
  with ok show ?thesis by (simp add: pollOnce_def)
next
  case True
  from ok True obtain em where em: "srv_eventManager (w_server w) = Some em"
    by (auto simp: steady_def service_ok_def server_ok_def)
  from ok True have run: "srv_running s0" by (simp add: steady_def same_setup_def)
  let ?call = "em_wait_call em (effectiveTimeout (srv_config (w_server w)) timeoutMs)"
  obtain a w1 where n: "next_wait ?call w = (a, w1)" by fastforce
  have "J w1" using waiting [of w ?call] ok n by simp
  then have ok1: "watched s0 {} {} w1" using ok n by (auto simp: next_wait_def steady_os)
  show ?thesis
    unfolding pollOnce_def using True em n ok1 run
    by (auto simp: eventLoop split: sum.splits)
qed

end

section \<open>Without a side condition\<close>

interpretation plain: side_condition "\<lambda>_. True"
  by unfold_locales simp_all

interpretation plain: poll_condition "\<lambda>_. True"
  by unfold_locales simp

lemmas steady_acceptClient = plain.acceptClient [simplified]
lemmas steady_acceptReadyClients = plain.acceptReadyClients [simplified]
lemmas steady_handleClientEvent = plain.handleClientEvent [simplified]
lemmas steady_pollOnce = plain.pollOnce [simplified]

end
