(* ===== verification/Descriptors.thy ===== *)
theory Descriptors
  imports Server_Invariant
begin

text \<open>
  Ownership of descriptors: a connection that leaves the table during any operation of the server
  has its descriptor closed exactly once, and no other descriptor is closed.
\<close>

definition keyed :: "world \<Rightarrow> bool" where
  "keyed w \<longleftrightarrow> (\<forall>fd c. findConnection w fd = Some c \<longrightarrow> cn_fd c = fd \<and> 0 \<le> fd)"

abbreviation closed_count :: "world \<Rightarrow> fd \<Rightarrow> nat" where
  "closed_count w fd \<equiv> count_list (os_closed (w_os w)) fd"

text \<open>From \<open>w\<close> to \<open>w'\<close> connections only disappear, and exactly those were closed, once each.\<close>

definition closes :: "world \<Rightarrow> world \<Rightarrow> bool" where
  "closes w w' \<longleftrightarrow> keyed w' \<and> om_dom (conns w') \<subseteq> om_dom (conns w) \<and>
     (\<forall>g. closed_count w' g =
          closed_count w g + (if findConnection w g \<noteq> None \<and> findConnection w' g = None then 1 else 0))"

lemma closes_refl: "keyed w \<Longrightarrow> closes w w"
  by (auto simp: closes_def)

lemma closes_keyed: "closes u v \<Longrightarrow> keyed v"
  by (simp add: closes_def)

lemma closes_trans:
  assumes a: "closes u v" and b: "closes v w"
  shows "closes u w"
proof -
  have "findConnection u g = None \<longrightarrow> findConnection v g = None" "findConnection v g = None \<longrightarrow> findConnection w g = None" for g
    using a b by (auto simp: closes_def findConnection_def domIff [symmetric])
  then show ?thesis using a b unfolding closes_def by (simp add: subset_iff)
qed

lemma closes_silent:
  assumes "keyed w" and "os_closed (w_os w') = os_closed (w_os w)" and "om_dom (conns w') = om_dom (conns w)"
    and "\<And>fd c. findConnection w' fd = Some c \<Longrightarrow> \<exists>c0. findConnection w fd = Some c0 \<and> cn_fd c = cn_fd c0"
  shows "closes w w'"
proof -
  have "findConnection w' g = None \<longleftrightarrow> findConnection w g = None" for g
    using assms(3) by (auto simp: findConnection_def domIff [symmetric])
  moreover have "keyed w'" using assms(1,4) unfolding keyed_def by metis
  ultimately show ?thesis using assms(2,3) by (auto simp: closes_def)
qed

lemma closed_frame [simp]:
  "w_os (store_queued fd r w) = w_os w" "w_os (purge fd w) = w_os w"
  "os_closed (w_os (snd (updateFd_call em fd i w))) = os_closed (w_os w)"
  "os_closed (w_os (detach fd w)) = os_closed (w_os w)"
  by (auto simp: store_queued_def purge_def detach_def updateFd_call_def removeFd_call_def set_manager_def Let_def
      split: prod.splits option.splits)

lemma detach_closed:
  assumes k: "keyed w" and conn: "findConnection w fd = Some c" and rest: "closes (detach fd w) w'"
  shows "closes w (closeFd c w')"
proof -
  have c: "cn_fd c = fd" "cn_fd c \<noteq> -1" using k conn by (fastforce simp: keyed_def)+
  have os: "os_closed (w_os (closeFd c w')) = os_closed (w_os w') @ [fd]" using c by (simp add: closeFd_def)
  have f: "findConnection (closeFd c w') g = findConnection w' g" for g by (simp add: findConnection_def)
  have none: "findConnection w' fd = None"
    using rest by (auto simp: closes_def findConnection_def domIff [symmetric])
  show ?thesis
    using rest conn none
    by (auto simp: closes_def os f findConnection_detach keyed_def)
qed

lemma cascade_closes:
  shows "keyed w1 \<longrightarrow> closes w1 (snd (sendTo fd1 line1 w1))"
    and "keyed w2 \<longrightarrow> closes w2 (snd (refreshInterest fd2 w2))"
    and "keyed w3 \<longrightarrow> closes w3 (disconnect fd3 r3 w3)"
    and "keyed w4 \<longrightarrow> closes w4 (onDisconnect c4 r4 w4)"
    and "keyed w5 \<longrightarrow> closes w5 (removeClientState fd5 r5 n5 w5)"
    and "keyed w6 \<longrightarrow> closes w6 (sendEach ps line6 w6)"
proof (induction fd1 line1 w1 and fd2 w2 and fd3 r3 w3 and c4 r4 w4 and fd5 r5 n5 w5 and ps line6 w6
    rule: cascade_induct)
  case (1 fd line w)
  show ?case
  proof (cases "findConnection w fd")
    case None
    then show ?thesis by (simp add: sendTo.simps closes_refl)
  next
    case (Some c)
    have q: "closes w (store_queued fd (queueLine c line) w)" if "keyed w"
    proof (rule closes_silent [OF that])
      show "om_dom (conns (store_queued fd (queueLine c line) w)) = om_dom (conns w)"
        using Some by (auto simp: findConnection_def)
      show "\<exists>c0. findConnection w g = Some c0 \<and> cn_fd c' = cn_fd c0"
        if "findConnection (store_queued fd (queueLine c line) w) g = Some c'" for g c'
        using that Some queueLine_frame(1) [of c line "fst (queueLine c line)" "snd (queueLine c line)"]
        by (auto simp: findConnection_def split: if_splits)
    qed simp
    have "closes w (snd (refreshInterest fd (store_queued fd (queueLine c line) w)))" if "keyed w"
      using closes_trans [OF q [OF that]] closes_keyed [OF q [OF that]] 1 [OF Some] by blast
    with Some show ?thesis by (auto simp: sendTo.simps split: prod.splits)
  qed
next
  case (2 fd w)
  show ?case
  proof (cases "findConnection w fd")
    case None
    then show ?thesis by (simp add: refreshInterest.simps closes_refl)
  next
    case (Some c)
    have u: "closes w (snd (updateFd_call em fd i w))" "closes w (reportError e (snd (updateFd_call em fd i w)))"
      if "keyed w" for em i e
      by (rule closes_silent [OF that]; auto simp: findConnection_def)+
    have fault: "closes w (w\<lparr>w_fault := True\<rparr>)" if "keyed w"
      by (rule closes_silent [OF that]) (auto simp: findConnection_def)
    have thrown: "closes w (disconnect fd ''event interest update failed'' (reportError e (snd (updateFd_call em fd (desired_interest c) w))))"
      if "keyed w" "srv_eventManager (w_server w) = Some em" "fst (updateFd_call em fd (desired_interest c) w) = Some e"
        "\<not> (cn_closeRequested c \<and> \<not> wantsWrite c)" for em e
      using 2(2) [OF Some that(4,2) refl that(3)] closes_trans [OF u(2) [OF that(1)]] closes_keyed [OF u(2) [OF that(1)]]
      by blast
    show ?thesis
      using 2(1) [OF Some] Some u(1) fault thrown
      by (auto simp: refreshInterest.simps Let_def split: option.splits)
  qed
next
  case (3 fd reason w)
  show ?case
  proof (cases "findConnection w fd")
    case None
    then show ?thesis by (simp add: disconnect.simps closes_refl)
  next
    case (Some c)
    have "keyed (detach fd w)" if "keyed w" using that by (auto simp: keyed_def findConnection_detach)
    with 3 Some show ?thesis
      by (auto simp: disconnect.simps Let_def intro!: detach_closed closes_refl)
  qed
next
  case (4 connection reason w)
  have "closes w (logEvent n fs w')" if "closes w w'" for n fs w'
    using that by (auto simp: closes_def keyed_def findConnection_def)
  with 4 show ?case by (simp add: onDisconnect.simps Let_def)
next
  case (5 fd reason notifyPeers w)
  have "closes w (purge fd w')" if "closes w w'" for w'
    using that by (auto simp: closes_def keyed_def findConnection_def)
  with 5 show ?case by (auto simp: removeClientState.simps Let_def closes_refl split: option.splits)
next
  case (6 line w)
  show ?case by (simp add: closes_refl)
next
  case (7 peer peers line w)
  then show ?case using closes_trans closes_keyed by (metis sendEach.simps(2))
qed

section \<open>Moving a connection\<close>

text \<open>
  The move constructor and the move assignment of \<open>Connection\<close>.  The strings that \<open>std::move\<close> leaves
  behind are unspecified: \<open>residue\<close> is any object with such strings.  Both functions return the new and the
  moved-from object.
\<close>

definition conn_move :: "connection \<Rightarrow> connection \<Rightarrow> connection \<times> connection" where
  "conn_move residue other =
     (other,
      other\<lparr>cn_fd := -1, cn_writeOffset := 0, cn_peerAddress := cn_peerAddress residue,
            cn_readBuffer := cn_readBuffer residue, cn_writeBuffer := cn_writeBuffer residue,
            cn_closeReason := cn_closeReason residue\<rparr>)"

definition conn_move_assign ::
  "connection \<Rightarrow> bool \<Rightarrow> connection \<Rightarrow> connection \<Rightarrow> world \<Rightarrow> (connection \<times> connection) \<times> world"
where
  "conn_move_assign residue self this other w =
     (if \<not> self then (conn_move residue other, closeFd this w) else ((this, other), w))"

lemma closed_count_closeFd:
  "closed_count (closeFd c w) g = closed_count w g + (if g = cn_fd c \<and> g \<noteq> -1 then 1 else 0)"
  by (auto simp: closeFd_def)

text \<open>The moved-from object owns nothing and its byte count cannot underflow.\<close>

lemma conn_move_source:
  "conn_move residue other = (new, old) \<Longrightarrow> new = other \<and> cn_fd old = -1 \<and> cn_writeOffset old \<le> length (cn_writeBuffer old)"
  by (auto simp: conn_move_def)

end
