(* ===== verification/Lifecycle.thy ===== *)
theory Lifecycle
  imports Descriptors
begin

text \<open>
  \<^verbatim>\<open>src/src/main.cpp\<close>: the program from its command line to its end, as a state machine over the
  operations of the server and the application.  The kernel may change its part of the state between
  any two steps.
\<close>

section \<open>Setting up\<close>

definition printUsage :: "string \<Rightarrow> string" where
  "printUsage programName =
     ''Usage: '' @ programName @ '' <port> <password> '' @
     ''[--idle-timeout=N] [--ping-timeout=N] [--registration-timeout=N] '' @
     ''[--rate-limit=COUNT:SECONDS] [--max-pending-bytes=N] [--max-connections=N]''"

text \<open>
  The configuration and the two objects with the handlers installed.  \<open>Inl\<close> is the line written to
  \<open>std::cerr\<close> when the program ends here: the usage, or the text of the exception.
\<close>

definition main_setup :: "string list \<Rightarrow> os_state \<Rightarrow> string + world" where
  "main_setup argv os =
     (if length argv < 3 then Inl (printUsage (if argv = [] then [] else argv ! 0))
      else
        (case parsePort (Some (argv ! 1)) of
           Inl e \<Rightarrow> Inl e
         | Inr port \<Rightarrow>
             (case parseOptions argv (ServerConfig\<lparr>cfg_port := word_of_int port\<rparr>) of
                Inl e \<Rightarrow> Inl e
              | Inr (runtime, config) \<Rightarrow>
                  Inr \<lparr>w_server = setErrorHandler True (setDisconnectHandler True (setLineHandler True
                                    (setConnectHandler True (Server config)))),
                       w_app = IrcApplication (argv ! 2) runtime, w_os = os, w_cerr = [], w_fault = False\<rparr>)))"

section \<open>The phases of the program\<close>

datatype phase = Serving | Draining nat | Finished | Failed string

definition clearHandlers :: "world \<Rightarrow> world" where
  "clearHandlers w =
     w\<lparr>w_server := setErrorHandler False (setDisconnectHandler False (setLineHandler False
                     (setConnectHandler False (w_server w))))\<rparr>"

text \<open>
  Between two steps the kernel may prepare any answers, but what the program has done so far is done and
  the clock does not run backwards.
\<close>

definition same_history :: "os_state \<Rightarrow> os_state \<Rightarrow> bool" where
  "same_history os os' \<longleftrightarrow>
     ck_log (os_ctl os') = ck_log (os_ctl os) \<and> os_now os \<le> os_now os' \<and> os_closed os' = os_closed os \<and>
     os_output os' = os_output os \<and> os_waits os' = os_waits os \<and> os_platform os' = os_platform os"

text \<open>
  The loop (\<open>serve\<close>) may be left at any time by a signal, or because the server stopped
  (\<open>interrupt\<close>); then at most eight more rounds flush the farewell lines.  An exception unwinds to
  the handler in \<open>main\<close>, which destroys the server.  \<open>fds\<close> is the key order of the table.
\<close>

inductive main_step :: "phase \<times> world \<Rightarrow> phase \<times> world \<Rightarrow> bool" where
  kernel: "p \<in> {Serving} \<union> range Draining \<Longrightarrow> same_history (w_os w) os \<Longrightarrow> main_step (p, w) (p, w\<lparr>w_os := os\<rparr>)"
| serve: "srv_running (w_server w) \<Longrightarrow> pollOnce (-1) w = (None, w1) \<Longrightarrow> main_step (Serving, w) (Serving, onTick w1)"
| interrupt: "main_step (Serving, w) (Draining 8, shutdown ''Server shutting down'' w)"
| drain: "connectionCount w > 0 \<Longrightarrow> pollOnce 50 w = (None, w1) \<Longrightarrow> main_step (Draining (Suc n), w) (Draining n, w1)"
| finish: "n = 0 \<or> connectionCount w = 0 \<Longrightarrow> set fds = om_dom (conns w) \<Longrightarrow>
    main_step (Draining n, w) (Finished, Server_destroy fds (stop (clearHandlers w)))"
| serve_throws: "srv_running (w_server w) \<Longrightarrow> pollOnce (-1) w = (Some e, w1) \<Longrightarrow> set fds = om_dom (conns w1) \<Longrightarrow>
    main_step (Serving, w) (Failed e, Server_destroy fds w1)"
| drain_throws: "connectionCount w > 0 \<Longrightarrow> pollOnce 50 w = (Some e, w1) \<Longrightarrow> set fds = om_dom (conns w1) \<Longrightarrow>
    main_step (Draining (Suc n), w) (Failed e, Server_destroy fds w1)"

inductive_cases main_step_Serving: "main_step (Serving, w) s"
inductive_cases main_step_Draining: "main_step (Draining n, w) s"

text \<open>The states of the program after a start that succeeded.  Before it, nothing has been registered.\<close>

definition announce :: "world \<Rightarrow> world" where
  "announce w = logEvent ''server_started'' [(''port'', show_nat (unat (cfg_port (srv_config (w_server w)))))] w"

inductive reachable :: "phase \<times> world \<Rightarrow> bool" where
  started: "ck_log (os_ctl os) = [] \<Longrightarrow> os_waits os = [] \<Longrightarrow> main_setup argv os = Inr w0 \<Longrightarrow> start w0 = (None, w) \<Longrightarrow>
    reachable (Serving, announce w)"
| step: "reachable s \<Longrightarrow> main_step s s' \<Longrightarrow> reachable s'"

section \<open>Start-up establishes the service invariant\<close>

lemma createListenSocket_frame:
  assumes "createListenSocket w = (r, w')"
  shows "conns w' = conns w" and "w_app w' = w_app w" and "w_fault w' = w_fault w"
    and "srv_eventManager (w_server w') = srv_eventManager (w_server w)"
    and "srv_metrics (w_server w') = srv_metrics (w_server w)"
    and "srv_onConnect (w_server w') = srv_onConnect (w_server w)"
    and "srv_onDisconnect (w_server w') = srv_onDisconnect (w_server w)"
proof -
  let ?port = "cfg_port (srv_config (w_server w))"
  obtain r1 w1 where o1: "config_calls (listenOptions (os_platform (w_os w))) w = (r1, w1)" by fastforce
  obtain r2 w2 where o2: "config_calls (bindCalls ?port) w1 = (r2, w2)" by fastforce
  note f = config_calls_frame [OF o1] config_calls_frame [OF o2]
  have "w' = w \<or> (\<exists>fd. w' = close_call fd w1 \<or> w' = close_call fd w2 \<or>
      (\<exists>config. w' = w2\<lparr>w_server := (w_server w2)\<lparr>srv_config := config, srv_listenFd := fd\<rparr>\<rparr>))"
    using assms unfolding createListenSocket_def Let_def o1
    by (cases r1; cases r2) (auto simp: o2 split: sum.splits if_splits)
  then show "conns w' = conns w" "w_app w' = w_app w" "w_fault w' = w_fault w"
    "srv_eventManager (w_server w') = srv_eventManager (w_server w)"
    "srv_metrics (w_server w') = srv_metrics (w_server w)"
    "srv_onConnect (w_server w') = srv_onConnect (w_server w)"
    "srv_onDisconnect (w_server w') = srv_onDisconnect (w_server w)"
    using f by (auto simp: close_call_def)
qed

lemma start_ok:
  assumes boot: "conns w = om_empty" "clients w = ClientRegistry" "channels w = om_empty" "\<not> w_fault w"
      "acceptedConnections (srv_metrics (w_server w)) = closedConnections (srv_metrics (w_server w))"
      "srv_onConnect (w_server w)" "srv_onDisconnect (w_server w)"
      "\<not> srv_running (w_server w)" "srv_eventManager (w_server w) = None"
    and start: "start w = (None, w')"
  shows "service_ok {} {} w'" and "srv_running (w_server w')" and "connectionCount w' = 0"
proof -
  from start boot(8,9) obtain em wa where c: "createDefault w = (Inr em, wa)" and l: "listen_with em wa = (None, w')"
    by (auto simp: start_def split: option.splits sum.splits prod.splits)
  have wa: "w_server wa = w_server w" "w_app wa = w_app w" "w_fault wa = w_fault w"
    using c by (auto simp: createDefault_defs split: platform.splits prod.splits option.splits)
  let ?wa = "wa\<lparr>w_server := (w_server wa)\<lparr>srv_eventManager := Some em\<rparr>\<rparr>"
  from l obtain w1 w2 where s: "createListenSocket ?wa = (None, w1)"
    and a: "addFd_call em (srv_listenFd (w_server w1)) ReadInterest w1 = (None, w2)"
    and w': "w' = w2\<lparr>w_server := (w_server w2)\<lparr>srv_stopRequested := False, srv_running := True\<rparr>\<rparr>"
    by (auto simp: listen_with_def Let_def split: prod.splits option.splits)
  note f = createListenSocket_frame [OF s]
  have em1: "srv_eventManager (w_server w1) = Some em" using f(4) by simp
  note g = addFd_call_cases [OF a em1 interest_values(1)]
  show "srv_running (w_server w')" by (simp add: w')
  have e: "findConnection w' fd = None" for fd
    using boot(1) wa f g by (simp add: findConnection_def w')
  have "clients w' = ClientRegistry" "channels w' = om_empty"
    using boot(2,3) wa f(2) g(2) by (simp_all add: w')
  then have "app_ok {} w'" by (simp add: app_ok_def e) (simp add: registry_find_def ClientRegistry_def)
  moreover have c': "conns w' = om_empty" and n': "\<not> w_fault w'" "srv_eventManager (w_server w') \<noteq> None"
    "srv_metrics (w_server w') = srv_metrics (w_server w)" "srv_onConnect (w_server w')" "srv_onDisconnect (w_server w')"
    using boot wa f g by (auto simp: w' same_setup_def)
  then show count: "connectionCount w' = 0" by (simp add: connectionCount_def om_size_card dom_def c')
  have "server_ok {} w'"
    using boot(5) by (simp add: server_ok_def e count n')
  ultimately show "service_ok {} {} w'" by (simp add: service_ok_def)
qed

lemma main_setup_ok:
  assumes "main_setup argv os = Inr w0" and "start w0 = (None, w)"
  shows "service_ok {} {} w" and "srv_running (w_server w)" and "connectionCount w = 0"
  using assms(1) start_ok [OF _ _ _ _ _ _ _ _ _ assms(2)]
  by (auto simp: main_setup_def handler_defs Server_def IrcApplication_def split: if_splits sum.splits)

section \<open>Shutdown releases everything\<close>

lemma closeAll_closes: "keyed w \<Longrightarrow> closes w (closeAllConnections fds w)"
proof (induction fds arbitrary: w)
  case (Cons fd fds)
  have d: "closes w (disconnect fd ''server stopped'' w)" using cascade_closes(3) Cons.prems by blast
  with Cons.IH closes_trans closes_keyed show ?case by (fastforce simp: closeAllConnections_def)
qed (simp add: closeAllConnections_def closes_refl)

lemma closeAll_dom: "om_dom (conns (closeAllConnections fds w)) \<subseteq> om_dom (conns w) - set fds"
proof (induction fds arbitrary: w)
  case (Cons fd fds)
  have "om_dom (conns (disconnect fd r w)) \<subseteq> om_dom (conns w) - {fd}" for r
    using cascade_dom(3) [of fd r w] disconnect_removes [of fd r w] by (auto simp: findConnection_def)
  then show ?case using Cons.IH [of "disconnect fd ''server stopped'' w"] by (fastforce simp: closeAllConnections_def)
qed (simp add: closeAllConnections_def)

lemma closeListenSocket_effect:
  "conns (closeListenSocket w) = conns w" "srv_listenFd (w_server (closeListenSocket w)) = -1"
  by (auto simp: closeListenSocket_def Let_def close_call_def removeFd_call_def set_manager_def split: option.splits prod.splits)

lemma Server_destroy_effect:
  assumes "set fds = om_dom (conns w)"
  shows "om_dom (conns (Server_destroy fds w)) = {}" and "srv_listenFd (w_server (Server_destroy fds w)) = -1"
  using closeAll_dom [of fds "stop w"] assms
  by (auto simp: Server_destroy_def closeListenSocket_effect stop_def)

text \<open>Each connection and the listening socket are closed exactly once, in whatever order the table is walked.\<close>

lemma closeListenSocket_closes:
  "closed_count (closeListenSocket w) g =
     closed_count w g + (if g = srv_listenFd (w_server w) \<and> g \<noteq> -1 then 1 else 0)"
  by (auto simp: closeListenSocket_def Let_def close_call_def removeFd_call_def set_manager_def
      split: option.splits prod.splits)

lemma disconnect_listenFd:
  "service_ok R E w \<Longrightarrow> srv_listenFd (w_server (disconnect fd r w)) = srv_listenFd (w_server w)"
  using steady.disconnect_keeps [of "w_server w" R E w fd r] by (simp add: steady_def same_setup_def)

lemma closeAll_keeps:
  assumes "service_ok R E w"
  shows "service_ok R E (closeAllConnections fds w)"
    and "srv_listenFd (w_server (closeAllConnections fds w)) = srv_listenFd (w_server w)"
  using assms
  by (induction fds arbitrary: w)
     (simp_all add: closeAllConnections_def svc.disconnect_keeps disconnect_listenFd)

lemma service_stop: "service_ok R E w \<Longrightarrow> service_ok R E (stop w)"
  unfolding service_ok_def
  using app_ok_cong [of "stop w" w R] by (simp add: stop_def server_ok_def lookup_defs attended_def interest_of_def)

lemma service_keyed: "service_ok R E w \<Longrightarrow> keyed w"
  by (auto simp: keyed_def service_ok_def dest: server_okD)

lemma keyed_cong: "conns w' = conns w \<Longrightarrow> keyed w' = keyed w"
  by (simp add: keyed_def findConnection_def)

lemma destroy_closes:
  assumes k: "keyed w" and fds: "set fds = om_dom (conns w)"
    and l: "srv_listenFd (w_server (closeAllConnections fds (stop w))) = srv_listenFd (w_server w)"
  shows "closed_count (Server_destroy fds w) g =
    closed_count w g + (if findConnection w g \<noteq> None then 1 else 0) +
    (if g = srv_listenFd (w_server w) \<and> g \<noteq> -1 then 1 else 0)"
proof -
  have s: "conns (stop w) = conns w" "w_os (stop w) = w_os w" "srv_listenFd (w_server (stop w)) = srv_listenFd (w_server w)"
    by (simp_all add: stop_def)
  have "closes (stop w) (closeAllConnections fds (stop w))"
    using k keyed_cong [OF s(1)] by (intro closeAll_closes) simp
  moreover have "findConnection (closeAllConnections fds (stop w)) g = None"
    using closeAll_dom [of fds "stop w"] fds s(1) by (auto simp: findConnection_def domIff [symmetric])
  ultimately show ?thesis
    using l s by (simp add: Server_destroy_def closeListenSocket_closes closes_def findConnection_def)
qed

lemma Server_destroy_closes:
  assumes "service_ok R E w" and "set fds = om_dom (conns w)"
  shows "closed_count (Server_destroy fds w) g =
    closed_count w g + (if findConnection w g \<noteq> None then 1 else 0) +
    (if g = srv_listenFd (w_server w) \<and> g \<noteq> -1 then 1 else 0)"
  using closeAll_keeps(2) [OF service_stop [OF assms(1)]]
  by (intro destroy_closes service_keyed [OF assms(1)] assms(2)) (simp add: stop_def)

lemma fault_closeListenSocket: "w_fault (closeListenSocket w) = w_fault w"
  by (auto simp: closeListenSocket_def Let_def close_call_def removeFd_call_def set_manager_def
      split: option.splits prod.splits)

lemma disconnect_silent:
  assumes "\<not> srv_onDisconnect (w_server w)"
  shows "w_fault (disconnect fd r w) = w_fault w" and "\<not> srv_onDisconnect (w_server (disconnect fd r w))"
  using assms detach_effect(2,3) [where fd = fd and w = w]
  by (auto simp: disconnect.simps Let_def same_setup_def split: option.splits)

text \<open>Without a disconnect handler the destructor leaves the application alone.\<close>

lemma silent_disconnect:
  assumes "\<not> srv_onDisconnect (w_server w)"
  shows "same_setup (w_server w) (w_server (disconnect fd r w))" and "w_app (disconnect fd r w) = w_app w"
  using assms detach_effect(1,3) [where fd = fd and w = w]
  by (auto simp: disconnect.simps Let_def same_setup_def split: option.splits)

lemma silent_closeAll:
  "\<not> srv_onDisconnect (w_server w) \<Longrightarrow>
   same_setup (w_server w) (w_server (closeAllConnections fds w)) \<and> w_app (closeAllConnections fds w) = w_app w"
proof (induction fds arbitrary: w)
  case (Cons fd fds)
  note d = silent_disconnect [OF Cons.prems, where fd = fd]
  show ?case
    using Cons.IH [OF disconnect_silent(2) [OF Cons.prems], where fd1 = fd] d
    by (simp add: closeAllConnections_def same_setup_def)
qed (simp add: closeAllConnections_def same_setup_def)

lemma service_closeAll:
  assumes "service_ok R E w"
  shows "same_setup (w_server w) (w_server (closeAllConnections fds w))"
proof -
  have "steady s0 R E v \<Longrightarrow> steady s0 R E (closeAllConnections fds v)" for s0 v
    by (induction fds arbitrary: v) (simp_all add: closeAllConnections_def steady.disconnect_keeps)
  from this [of "w_server w" w] assms show ?thesis by (simp add: steady_def)
qed

lemma Server_destroy_fault:
  assumes "service_ok R E w \<or> \<not> srv_onDisconnect (w_server w)"
  shows "w_fault (Server_destroy fds w) = w_fault w"
proof -
  have "w_fault (closeAllConnections fds (stop w)) = w_fault w" if "\<not> srv_onDisconnect (w_server w)"
  proof -
    have "\<not> srv_onDisconnect (w_server v) \<Longrightarrow> w_fault (closeAllConnections fds v) = w_fault v" for v
      by (induction fds arbitrary: v) (simp_all add: closeAllConnections_def disconnect_silent)
    then show ?thesis using that by (simp add: stop_def)
  qed
  moreover have "\<not> w_fault (closeAllConnections fds (stop w)) \<and> \<not> w_fault w" if "service_ok R E w"
    using closeAll_keeps(1) [OF service_stop [OF that]] that by (auto simp: service_ok_def server_ok_def)
  ultimately show ?thesis using assms by (auto simp: Server_destroy_def fault_closeListenSocket)
qed

text \<open>
  What is left of the world \<open>v\<close> when the server is destroyed: nothing is connected, the listening socket is closed, the
  server does not run, and every descriptor that \<open>v\<close> held has been closed exactly once, and no other.
\<close>

definition dismantled :: "world \<Rightarrow> world \<Rightarrow> bool" where
  "dismantled v w' \<longleftrightarrow>
     (\<forall>g. findConnection w' g = None) \<and> srv_listenFd (w_server w') = -1 \<and> \<not> srv_running (w_server w') \<and> \<not> w_fault w' \<and>
     (\<forall>g. closed_count w' g = closed_count v g + (if findConnection v g \<noteq> None then 1 else 0) +
        (if g = srv_listenFd (w_server v) \<and> g \<noteq> -1 then 1 else 0))"

lemma closeListenSocket_frame:
  "srv_running (w_server (closeListenSocket w)) = srv_running (w_server w)" "w_app (closeListenSocket w) = w_app w"
  by (auto simp: closeListenSocket_def Let_def close_call_def removeFd_call_def set_manager_def
      split: option.splits prod.splits)

lemma destroy_dismantles:
  assumes "keyed v" and "set fds = om_dom (conns v)" and "\<not> w_fault v" and "service_ok R E v \<or> \<not> srv_onDisconnect (w_server v)"
  shows "dismantled v (Server_destroy fds v)"
proof -
  have kept: "same_setup (w_server (stop v)) (w_server (closeAllConnections fds (stop v)))"
    using assms(4) silent_closeAll [of "stop v" fds] service_closeAll [OF service_stop, of R E v fds] by (auto simp: stop_def)
  then have "srv_listenFd (w_server (closeAllConnections fds (stop v))) = srv_listenFd (w_server v)"
    "\<not> srv_running (w_server (Server_destroy fds v))"
    by (simp_all add: same_setup_def Server_destroy_def closeListenSocket_frame stop_def)
  with destroy_closes [OF assms(1,2)] Server_destroy_effect [OF assms(2)] Server_destroy_fault [OF assms(4)] assms(3)
  show ?thesis by (auto simp: dismantled_def findConnection_def)
qed

text \<open>The regular end of \<open>main\<close>: with the handlers cleared, the application sees nothing of it.\<close>

lemma finish_dismantles:
  assumes "service_ok {} {} w" and "set fds = om_dom (conns w)"
  shows "dismantled w (Server_destroy fds (stop (clearHandlers w)))"
    and "w_app (Server_destroy fds (stop (clearHandlers w))) = w_app w"
proof -
  let ?v = "stop (clearHandlers w)"
  have v: "conns ?v = conns w" "w_os ?v = w_os w" "srv_listenFd (w_server ?v) = srv_listenFd (w_server w)" "w_fault ?v = w_fault w"
    "\<not> srv_onDisconnect (w_server ?v)" "w_app ?v = w_app w"
    by (simp_all add: stop_def clearHandlers_def handler_defs)
  have "keyed ?v" using service_keyed [OF assms(1)] keyed_cong [OF v(1)] by simp
  moreover have "\<not> w_fault w" using assms(1) by (simp add: service_ok_def server_ok_def)
  ultimately have "dismantled ?v (Server_destroy fds ?v)" using assms(2) v by (intro destroy_dismantles) auto
  then show "dismantled w (Server_destroy fds ?v)" using v by (simp add: dismantled_def findConnection_def)
  show "w_app (Server_destroy fds ?v) = w_app w"
    using silent_closeAll [of "stop ?v" fds] v by (simp add: Server_destroy_def closeListenSocket_frame stop_def)
qed

section \<open>The invariant of the program\<close>

definition released :: "world \<Rightarrow> bool" where
  "released w \<longleftrightarrow> om_dom (conns w) = {} \<and> srv_listenFd (w_server w) = -1 \<and> \<not> w_fault w"

definition within_limit :: "world \<Rightarrow> bool" where
  "within_limit w \<longleftrightarrow>
     cfg_maxConnections (srv_config (w_server w)) = 0 \<or>
     connectionCount w \<le> unat (cfg_maxConnections (srv_config (w_server w)))"

lemma steady_limit: "steady (w_server w) R E w' \<Longrightarrow> within_limit w \<Longrightarrow> within_limit w'"
  by (auto simp: steady_def same_setup_def capped_def within_limit_def connectionCount_def)

fun main_ok :: "phase \<times> world \<Rightarrow> bool" where
  "main_ok (Serving, w) \<longleftrightarrow> service_ok {} {} w \<and> within_limit w"
| "main_ok (Draining n, w) \<longleftrightarrow> service_ok {} {} w \<and> within_limit w \<and> n \<le> 8"
| "main_ok (Finished, w) \<longleftrightarrow> released w"
| "main_ok (Failed e, w) \<longleftrightarrow> released w"

lemma destroy_released:
  assumes "service_ok R E w \<or> \<not> srv_onDisconnect (w_server w)" and "\<not> w_fault w" and "set fds = om_dom (conns w)"
  shows "released (Server_destroy fds w)"
  using Server_destroy_effect [OF assms(3)] Server_destroy_fault [OF assms(1)] assms(2) by (simp add: released_def)

lemma service_no_fault: "service_ok R E w \<Longrightarrow> \<not> w_fault w"
  by (simp add: service_ok_def server_ok_def)

lemma service_pollOnce:
  assumes "service_ok {} {} w"
  shows "service_ok {} {} (snd (pollOnce t w))" and "within_limit w \<Longrightarrow> within_limit (snd (pollOnce t w))"
proof -
  have s: "steady (w_server w) {} {} (snd (pollOnce t w))" using assms by (intro steady_pollOnce) (simp add: steady_def)
  then show "service_ok {} {} (snd (pollOnce t w))" by (simp add: steady_def)
  show "within_limit w \<Longrightarrow> within_limit (snd (pollOnce t w))" by (rule steady_limit [OF s])
qed

lemma service_background:
  assumes "service_ok {} {} w" and "within_limit w"
  shows "service_ok {} {} (onTick w) \<and> within_limit (onTick w)"
    and "service_ok {} {} (shutdown r w) \<and> within_limit (shutdown r w)"
proof -
  have s: "steady (w_server w) {} {} w" using assms(1) by (simp add: steady_def)
  show "service_ok {} {} (onTick w) \<and> within_limit (onTick w)"
    using steady_loop.onTick [OF s] steady_limit [OF steady_loop.onTick [OF s] assms(2)] by (simp add: steady_def)
  show "service_ok {} {} (shutdown r w) \<and> within_limit (shutdown r w)"
    using steady_loop.shutdown [OF s, of r] steady_limit [OF steady_loop.shutdown [OF s] assms(2), of r] by (simp add: steady_def)
qed

lemma main_step_ok: "main_step s s' \<Longrightarrow> main_ok s \<Longrightarrow> main_ok s'"
proof (induction rule: main_step.induct)
  case (kernel p w os)
  then show ?case
    using service_os_step [of "{}" "{}" w "w\<lparr>w_os := os\<rparr>"] by (auto simp: within_limit_def connectionCount_def)
next
  case (serve w w1)
  then show ?case using service_pollOnce [of w "- 1"] service_background(1) [of w1] by simp
next
  case (interrupt w)
  then show ?case using service_background(2) by simp
next
  case (drain w w1 n)
  then show ?case using service_pollOnce [of w 50] by auto
next
  case (finish n w fds)
  then show ?case
    by (auto intro!: destroy_released simp: stop_def clearHandlers_def handler_defs service_no_fault)
next
  case (serve_throws w e w1 fds)
  then have "service_ok {} {} w1" using service_pollOnce [of w "- 1"] by simp
  with serve_throws show ?case by (auto intro: destroy_released simp: service_no_fault)
next
  case (drain_throws w e w1 fds n)
  then have "service_ok {} {} w1" using service_pollOnce [of w 50] by simp
  with drain_throws show ?case by (auto intro: destroy_released simp: service_no_fault)
qed

lemma reachable_ok: "reachable s \<Longrightarrow> main_ok s"
proof (induction rule: reachable.induct)
  case (started os argv w0 w)
  note s = main_setup_ok [OF started(3,4)]
  have "within_limit (announce w)" using s(3) by (simp add: within_limit_def announce_def connectionCount_def)
  with svc.log [OF s(1)] show ?case by (simp add: announce_def)
qed (rule main_step_ok)

section \<open>A start that fails\<close>

lemma config_calls_closed: "config_calls ws w = (r, w') \<Longrightarrow> os_closed (w_os w') = os_closed (w_os w) \<and> os_socket (w_os w') = os_socket (w_os w)"
proof (induction ws arbitrary: w)
  case (Cons x ws)
  then show ?case by (auto simp: config_call_def split: prod.splits option.splits)
qed simp

text \<open>The descriptors that a failed attempt to listen has closed: the socket, if there was one.\<close>

definition socket_opened :: "world \<Rightarrow> fd list" where
  "socket_opened w = (case os_socket (w_os w) of Inl _ \<Rightarrow> [] | Inr n \<Rightarrow> [int n])"

lemma createListenSocket_closed:
  assumes "createListenSocket w = (r, w')"
  shows "r \<noteq> None \<Longrightarrow> os_closed (w_os w') = os_closed (w_os w) @ socket_opened w"
    and "r \<noteq> None \<Longrightarrow> srv_listenFd (w_server w') = srv_listenFd (w_server w)"
    and "r = None \<Longrightarrow> os_closed (w_os w') = os_closed (w_os w) \<and> [srv_listenFd (w_server w')] = socket_opened w"
    and "srv_running (w_server w') = srv_running (w_server w)"
proof -
  let ?port = "cfg_port (srv_config (w_server w))"
  obtain r1 w1 where o1: "config_calls (listenOptions (os_platform (w_os w))) w = (r1, w1)" by fastforce
  obtain r2 w2 where o2: "config_calls (bindCalls ?port) w1 = (r2, w2)" by fastforce
  note f = config_calls_frame [OF o1] config_calls_frame [OF o2] config_calls_closed [OF o1] config_calls_closed [OF o2]
  have cases: "(r \<noteq> None \<and> socket_opened w = [] \<and> w' = w) \<or>
      (\<exists>n. socket_opened w = [int n] \<and> (r \<noteq> None \<and> (w' = close_call (int n) w1 \<or> w' = close_call (int n) w2) \<or>
        r = None \<and> (\<exists>config. w' = w2\<lparr>w_server := (w_server w2)\<lparr>srv_config := config, srv_listenFd := int n\<rparr>\<rparr>)))"
    using assms unfolding createListenSocket_def Let_def o1 socket_opened_def
    by (cases r1; cases r2) (auto simp: o2 split: sum.splits if_splits)
  then show "r \<noteq> None \<Longrightarrow> os_closed (w_os w') = os_closed (w_os w) @ socket_opened w"
    "r \<noteq> None \<Longrightarrow> srv_listenFd (w_server w') = srv_listenFd (w_server w)"
    "r = None \<Longrightarrow> os_closed (w_os w') = os_closed (w_os w) \<and> [srv_listenFd (w_server w')] = socket_opened w"
    "srv_running (w_server w') = srv_running (w_server w)"
    using f by (auto simp: close_call_def)
qed

lemma listen_with_fails:
  assumes l: "listen_with em w = (Some e, w')" and idle: "\<not> srv_running (w_server w)" "srv_listenFd (w_server w) = -1"
  shows "os_closed (w_os w') = os_closed (w_os w) @ socket_opened w" and "srv_listenFd (w_server w') = -1"
    and "\<not> srv_running (w_server w')" and "conns w' = conns w" and "w_app w' = w_app w"
proof -
  let ?w0 = "w\<lparr>w_server := (w_server w)\<lparr>srv_eventManager := Some em\<rparr>\<rparr>"
  obtain r w1 where c: "createListenSocket ?w0 = (r, w1)" by fastforce
  note f = createListenSocket_frame [OF c] and g = createListenSocket_closed [OF c]
  have so: "socket_opened ?w0 = socket_opened w" by (simp add: socket_opened_def)
  have "os_closed (w_os w') = os_closed (w_os w) @ socket_opened w \<and> srv_listenFd (w_server w') = -1 \<and>
      \<not> srv_running (w_server w') \<and> conns w' = conns w \<and> w_app w' = w_app w"
  proof (cases r)
    case (Some e')
    with l c have "w' = w1" by (simp add: listen_with_def)
    with Some f g so idle show ?thesis by simp
  next
    case None
    have em1: "srv_eventManager (w_server w1) = Some em" using f(4) by simp
    obtain r2 w2 where a: "addFd_call em (srv_listenFd (w_server w1)) ReadInterest w1 = (r2, w2)" by fastforce
    note h = addFd_call_cases [OF a em1 interest_values(1)]
    have a2: "os_closed (w_os w2) = os_closed (w_os w1)"
      using a by (auto simp: addFd_call_def set_manager_def split: prod.splits)
    obtain n where n: "srv_listenFd (w_server w1) = int n" "socket_opened w = [int n]"
      using g(3) None so by (auto simp: socket_opened_def split: sum.splits)
    have "os_closed (w_os (closeListenSocket w2)) = os_closed (w_os w2) @ [int n]"
      "srv_running (w_server (closeListenSocket w2)) = srv_running (w_server w2)" "w_app (closeListenSocket w2) = w_app w2"
      using h(5) n(1) by (auto simp: closeListenSocket_def Let_def close_call_def removeFd_call_def set_manager_def same_setup_def
          split: option.splits prod.splits)
    moreover have "w' = (closeListenSocket w2)\<lparr>w_server := (w_server (closeListenSocket w2))\<lparr>srv_eventManager := None\<rparr>\<rparr>"
      using l c None a by (auto simp: listen_with_def Let_def split: option.splits)
    ultimately show ?thesis
      using g(3,4) None so n a2 h f idle closeListenSocket_effect [of w2] by (simp add: same_setup_def)
  qed
  then show "os_closed (w_os w') = os_closed (w_os w) @ socket_opened w" "srv_listenFd (w_server w') = -1"
    "\<not> srv_running (w_server w')" "conns w' = conns w" "w_app w' = w_app w" by simp_all
qed

end
