(* ===== verification/Traffic.thy ===== *)
theory Traffic
  imports Commands Descriptors Scenario
begin

text \<open>
  What reaches whom: the messages that a disconnect, a PRIVMSG and a NICK change put into the output
  queues of the other clients, and the descriptors that are closed on the way.
\<close>

section \<open>Disconnecting\<close>

lemma findConnection_cong: "conns w' = conns w \<Longrightarrow> findConnection w' = findConnection w"
  by (simp add: findConnection_def fun_eq_iff)

lemma alive_empty: "alive {} w = (\<lambda>g. findConnection w g \<noteq> None)"
  by (simp add: alive_def fun_eq_iff)

text \<open>
  C3: After \<open>disconnect\<close> the connection is gone and the service invariant holds again.  The application
  state is the one before restricted to the clients that are still connected: their own states are
  unchanged, every channel keeps exactly its surviving members and operators, and a channel without survivors
  is gone.  This covers the cascade, in which announcing the QUIT may cost further clients their
  connection.
\<close>

theorem disconnect_exact:
  assumes "service_ok {} {} w" and "w' = disconnect fd reason w"
  shows "service_ok {} {} w' \<and> findConnection w' fd = None \<and> restricted w (\<lambda>g. findConnection w' g \<noteq> None) w'"
proof -
  have "restricted w (alive {} w) w" using assms(1) by (rule restricted_refl)
  then show ?thesis
    using restr.disconnect_keeps [of "{}" "{}" w w fd reason] disconnect_removes assms by (simp add: alive_empty)
qed

theorem disconnect_exact_witness:
  "service_ok {} {} (disconnect 4 ''bye'' chat) \<and> findConnection (disconnect 4 ''bye'' chat) 4 = None \<and>
   registry_find (clients (disconnect 4 ''bye'' chat)) 5 = registry_find (clients chat) 5"
proof -
  have "findConnection (disconnect 4 ''bye'' chat) 5 \<noteq> None" by code_simp
  with disconnect_exact [OF chat_ok refl, of 4 "''bye''"] show ?thesis by (simp add: restricted_def)
qed

text \<open>
  C25: A disconnect closes the descriptor of every connection it removes exactly once and no other
  descriptor, however far the cascade reaches.
\<close>

theorem disconnect_closes_once:
  assumes "service_ok R E w" and "w' = disconnect fd reason w"
  shows "count_list (os_closed (w_os w')) g =
    count_list (os_closed (w_os w)) g + (if findConnection w g \<noteq> None \<and> findConnection w' g = None then 1 else 0)"
proof -
  have "keyed w" using assms(1) by (auto simp: keyed_def service_ok_def dest: server_okD)
  then show ?thesis using cascade_closes(3) [of w fd reason] assms(2) by (simp add: closes_def)
qed

theorem disconnect_closes_once_witness:
  "os_closed (w_os (disconnect 4 ''bye'' chat)) = [4] \<and> count_list (os_closed (w_os (disconnect 4 ''bye'' chat))) 4 = 1"
proof -
  have "os_closed (w_os chat) = []" "findConnection chat 4 \<noteq> None"
    by (simp_all add: chat_def findConnection_def)
  then have "count_list (os_closed (w_os (disconnect 4 ''bye'' chat))) 4 = 1"
    using disconnect_closes_once [OF chat_ok refl, of 4 "''bye''" 4] disconnect_removes [of 4 "''bye''" chat] by simp
  moreover have "os_closed (w_os (disconnect 4 ''bye'' chat)) = [4]" by code_simp
  ultimately show ?thesis by blast
qed

text \<open>The two loops that collect the peers of a client in a set.\<close>

lemma fold_collect:
  "om_dom (fold (\<lambda>(name, ch) s. if P ch then os_insert_all (f ch) s else s) es s) =
     om_dom s \<union> \<Union> (set ` f ` {ch \<in> snd ` set es. P ch})"
proof (induction es arbitrary: s)
  case (Cons e es)
  have "{ch \<in> snd ` set (e # es). P ch} = (if P (snd e) then {snd e} else {}) \<union> {ch \<in> snd ` set es. P ch}" by auto
  then show ?case by (cases e) (simp add: Cons.IH image_Un, blast)
qed simp

lemma om_entries_snd: "snd ` set (om_entries m) = ran (om_get m)"
proof -
  have "(k, v) \<in> set (om_entries m) \<longleftrightarrow> om_get m k = Some v" for k v by (simp add: om_set_entries)
  then show ?thesis by (force simp: ran_def image_iff)
qed

lemma set_channel_peers:
  "set (om_keys (channel_peers chans fd)) =
     {m. m \<noteq> fd \<and> (\<exists>n ch. om_get chans n = Some ch \<and> hasMember ch fd \<and> hasMember ch m)}"
  unfolding om_dom_keys channel_peers_def fold_collect om_entries_snd
  by (auto simp: set_members ran_def dom_def)

lemma set_common_targets:
  "set (om_keys (common_targets chans fd)) =
     {m. \<exists>n ch. om_get chans n = Some ch \<and> hasMember ch fd \<and> hasMember ch m}"
proof -
  have "common_targets chans fd =
      fold (\<lambda>(name, ch) s. if hasMember ch fd then os_insert_all (members ch) s else s) (om_entries chans) os_empty"
    unfolding common_targets_def by (rule fold_cong) auto
  then show ?thesis
    unfolding om_dom_keys by (simp only: fold_collect om_entries_snd) (auto simp: set_members ran_def dom_def)
qed

text \<open>
  C7: When a registered client is disconnected, every client that shares a channel with it and is still
  connected afterwards has the QUIT line with the old host mask and the reason in its output queue, or is
  itself being closed.
\<close>

theorem quit_announced:
  assumes ok: "service_ok {} {} w" and conn: "findConnection w fd = Some c"
    and st: "registry_find (clients w) fd = Some st" "cs_registered st"
    and ch: "om_get (channels w) name = Some ch" "hasMember ch fd" "hasMember ch peer" "peer \<noteq> fd"
    and left: "findConnection (disconnect fd reason w) peer = Some c'"
  shows "cn_closeRequested c' \<or>
    carries c' (formatMessage (hostmask (cs_nick st) (cs_user st) (cs_host st)) ''QUIT'' [reason])"
proof -
  let ?w = "detach fd w" and ?line = "formatMessage (prefixForClient w st) ''QUIT'' [reason]"
  let ?ps = "om_keys (channel_peers (channels w) fd)"
  have nick: "cs_nick st \<noteq> []" using service_client_ok [OF ok st(1)] st(2) by (auto simp: client_ok_def)
  have d: "service_ok {fd} {} ?w" using svc.detach [OF ok conn] by simp
  have own: "cn_fd c = fd" "srv_onDisconnect (w_server ?w)" using svc.owner [OF ok conn] svc.handler [OF d] by auto
  have app: "w_app ?w = w_app w" by (rule detach_effect(1))
  have pre: "prefixForClient ?w st = prefixForClient w st" by (simp add: prefixForClient_def app)
  have "conns (disconnect fd reason w) = conns (sendEach ?ps ?line ?w)"
    using conn own st nick
    by (simp add: disconnect.simps onDisconnect.simps removeClientState.simps Let_def app pre)
  then have "findConnection (sendEach ?ps ?line ?w) peer = Some c'" using left by (simp add: findConnection_def)
  moreover have "peer \<in> set ?ps" using ch by (auto simp: set_channel_peers)
  ultimately have "cn_closeRequested c' \<or> carries c' ?line" using sendEach_delivers [OF d] by blast
  then show ?thesis using nick by (simp add: prefixForClient_def)
qed

theorem quit_announced_witness:
  "\<exists>c'. findConnection (disconnect 4 ''bye'' chat) 5 = Some c' \<and> carries c' ('':alice!alice@127.0.0.1 QUIT bye'' @ crlf)"
proof -
  let ?c4 = "Connection 4 ''127.0.0.1:5004'' 512 1048576"
  let ?st = "(member_state 4 ''alice'')\<lparr>cs_nick := ''alice'', cs_hasNick := True\<rparr>"
  have pre: "findConnection chat 4 = Some ?c4" "registry_find (clients chat) 4 = Some ?st" "cs_registered ?st"
    "om_get (channels chat) ''#a'' = Some room" "hasMember room 4" "hasMember room 5" "(5 :: fd) \<noteq> 4"
    by (simp_all add: findConnection_def chat_def find_two_clients member_state_def ClientState_def room_def)
  have "case findConnection (disconnect 4 ''bye'' chat) 5 of None \<Rightarrow> False | Some c \<Rightarrow> \<not> cn_closeRequested c"
    by code_simp
  then obtain c' where c': "findConnection (disconnect 4 ''bye'' chat) 5 = Some c'" "\<not> cn_closeRequested c'"
    by (auto split: option.splits)
  moreover have "formatMessage (hostmask (cs_nick ?st) (cs_user ?st) (cs_host ?st)) ''QUIT'' [''bye''] =
      '':alice!alice@127.0.0.1 QUIT bye'' @ crlf" by code_simp
  ultimately show ?thesis using quit_announced [OF chat_ok pre c'(1)] by auto
qed

section \<open>PRIVMSG\<close>

lemma distinct_members: "distinct (members ch)"
  by (simp add: members_def om.distinct_keys_of)

lemma broadcast_exact:
  assumes "om_get (channels w) name = Some ch" and "w' = broadcastToChannel name line x w"
    and "om_dom (conns w') = om_dom (conns w)"
  shows "w_app w' = w_app w \<and>
    findConnection w' g =
      (if hasMember ch g \<and> g \<noteq> x then map_option (\<lambda>c. snd (queueLine c line)) (findConnection w g) else findConnection w g)"
  using assms sendEach_exact [of "filter (\<lambda>m. m \<noteq> x) (members ch)" line w g]
  by (simp add: broadcastToChannel_def distinct_members set_members)

text \<open>
  C8: A message to a channel the sender belongs to is queued once for every other member and for nobody
  else: unless a connection is lost on the way, the other connections, the sender's own one and the
  application state apart from the counter stay as they are.
\<close>

theorem privmsg_channel_exact:
  assumes "isChannelTarget target" and "om_get (channels w) target = Some ch" and "hasMember ch sender"
    and "w' = privmsgTarget sender msg target w" and "om_dom (conns w') = om_dom (conns w)"
  shows "clients w' = clients w \<and> channels w' = channels w \<and>
    findConnection w' g =
      (if hasMember ch g \<and> g \<noteq> sender
       then map_option (\<lambda>c. snd (queueLine c (formatMessage (prefixFor w sender) ''PRIVMSG'' [target, msg])))
              (findConnection w g)
       else findConnection w g)"
proof -
  let ?line = "formatMessage (prefixFor w sender) ''PRIVMSG'' [target, msg]"
  have w': "w' = relayed (broadcastToChannel target ?line sender w)" using assms(1-4) by (simp add: privmsgTarget_def)
  then have same: "conns w' = conns (broadcastToChannel target ?line sender w)"
    "clients w' = clients (broadcastToChannel target ?line sender w)"
    "channels w' = channels (broadcastToChannel target ?line sender w)"
    by (simp_all add: relayed_def)
  show ?thesis
    using broadcast_exact [OF assms(2) refl, of ?line sender g] assms(5) same by (simp add: findConnection_def)
qed

theorem privmsg_channel_exact_witness:
  "findConnection (privmsgTarget 4 ''hi'' ''#a'' chat) 4 = findConnection chat 4 \<and>
   findConnection (privmsgTarget 4 ''hi'' ''#a'' chat) 5 =
     Some (snd (queueLine (Connection 5 ''127.0.0.1:5005'' 512 1048576) ('':alice!alice@127.0.0.1 PRIVMSG #a hi'' @ crlf)))"
proof -
  have pre: "isChannelTarget ''#a''" "om_get (channels chat) ''#a'' = Some room" "hasMember room 4"
    by (simp_all add: isChannelTarget_def chat_def room_def)
  have "om_keys (conns (privmsgTarget 4 ''hi'' ''#a'' chat)) = om_keys (conns chat)" by code_simp
  then have "om_dom (conns (privmsgTarget 4 ''hi'' ''#a'' chat)) = om_dom (conns chat)" by (metis om_dom_keys)
  note exact = privmsg_channel_exact [OF pre refl this]
  have "formatMessage (prefixFor chat 4) ''PRIVMSG'' [''#a'', ''hi''] = '':alice!alice@127.0.0.1 PRIVMSG #a hi'' @ crlf"
    by code_simp
  then show ?thesis
    using exact [of 4] exact [of 5] by (simp add: findConnection_def chat_def room_def)
qed

text \<open>
  C9: Whatever connections are lost during the broadcast, every other member of the channel that is still
  connected afterwards has the line in its output queue, unless it is being closed.
\<close>

theorem privmsg_channel_delivers:
  assumes "service_ok {} {} w" and "isChannelTarget target" and "om_get (channels w) target = Some ch"
    and "hasMember ch sender" and "hasMember ch peer" and "peer \<noteq> sender"
    and "findConnection (privmsgTarget sender msg target w) peer = Some c'"
  shows "cn_closeRequested c' \<or> carries c' (formatMessage (prefixFor w sender) ''PRIVMSG'' [target, msg])"
proof -
  let ?line = "formatMessage (prefixFor w sender) ''PRIVMSG'' [target, msg]"
  have "conns (privmsgTarget sender msg target w) =
      conns (sendEach (filter (\<lambda>m. m \<noteq> sender) (members ch)) ?line w)"
    using assms(2-4) by (simp add: privmsgTarget_def relayed_def broadcastToChannel_def)
  with assms(7) have "findConnection (sendEach (filter (\<lambda>m. m \<noteq> sender) (members ch)) ?line w) peer = Some c'"
    by (simp add: findConnection_def)
  then show ?thesis using assms(5,6) by (intro sendEach_delivers [OF assms(1)]) (simp_all add: set_members)
qed

theorem privmsg_channel_delivers_witness:
  "\<exists>c'. findConnection (privmsgTarget 4 ''hi'' ''#a'' chat) 5 = Some c' \<and>
        carries c' ('':alice!alice@127.0.0.1 PRIVMSG #a hi'' @ crlf)"
proof -
  have pre: "isChannelTarget ''#a''" "om_get (channels chat) ''#a'' = Some room" "hasMember room 4" "hasMember room 5"
    "(5 :: fd) \<noteq> 4"
    by (simp_all add: isChannelTarget_def chat_def room_def)
  have "case findConnection (privmsgTarget 4 ''hi'' ''#a'' chat) 5 of None \<Rightarrow> False | Some c \<Rightarrow> \<not> cn_closeRequested c"
    by code_simp
  then obtain c' where c': "findConnection (privmsgTarget 4 ''hi'' ''#a'' chat) 5 = Some c'" "\<not> cn_closeRequested c'"
    by (auto split: option.splits)
  moreover have "formatMessage (prefixFor chat 4) ''PRIVMSG'' [''#a'', ''hi''] = '':alice!alice@127.0.0.1 PRIVMSG #a hi'' @ crlf"
    by code_simp
  ultimately show ?thesis using privmsg_channel_delivers [OF chat_ok pre c'(1)] by auto
qed

text \<open>
  A message to a channel that does not exist or that the sender has not joined is answered with 404
  and goes nowhere: nobody else's connection changes and neither does the application state, the counter
  of relayed messages included.
\<close>

lemma privmsg_channel_refused:
  assumes "isChannelTarget target" and "\<forall>ch. om_get (channels w) target = Some ch \<longrightarrow> \<not> hasMember ch sender"
    and "w' = privmsgTarget sender msg target w" and "om_dom (conns w') = om_dom (conns w)"
  shows "w_app w' = w_app w \<and>
    findConnection w' g =
      (if g = sender
       then map_option (\<lambda>c. snd (queueLine c (numeric (app_serverName (w_app w)) (replyTarget w sender) 404 [target]
              ''Cannot send to channel''))) (findConnection w sender)
       else findConnection w g)"
proof -
  have "w' = snd (sendNumeric sender 404 [target] ''Cannot send to channel'' w)"
    using assms(1-3) by (auto simp: privmsgTarget_def split: option.splits)
  then show ?thesis
    using assms(4) sendTo_no_loss [of sender _ w] by (auto simp: sendNumeric_def sendRaw_def)
qed

text \<open>
  C30: A message to a nickname is queued for exactly the client that carries the nickname, up to letter case, and for
  nobody else, unless a connection is lost on the way.
\<close>

theorem privmsg_direct_exact:
  assumes "registry_inv (clients w)" and "registry_nick (clients w) i = Some nick" and "i \<noteq> -1"
    and "canonicalNick nick = canonicalNick target" and "\<not> isChannelTarget target"
    and "w' = privmsgTarget sender msg target w" and "om_dom (conns w') = om_dom (conns w)"
  shows "findConnection w' g =
      (if g = i
       then map_option (\<lambda>c. snd (queueLine c (formatMessage (prefixFor w sender) ''PRIVMSG'' [target, msg])))
              (findConnection w i)
       else findConnection w g)"
proof -
  let ?line = "formatMessage (prefixFor w sender) ''PRIVMSG'' [target, msg]"
  have "findNick w target = i"
    using findFdByNickname_iff [OF assms(1,3), of target] assms(2,4) by (auto simp: findNick_def)
  then have same: "conns w' = conns (snd (sendTo i ?line w))"
    using assms(3,5,6) by (simp add: privmsgTarget_def relayed_def sendRaw_def)
  then have "om_dom (conns (snd (sendTo i ?line w))) = om_dom (conns w)" using assms(7) by simp
  from sendTo_no_loss(2) [OF this, of g] same show ?thesis by (simp add: findConnection_def)
qed

theorem privmsg_direct_exact_witness:
  "findConnection (privmsgTarget 4 ''psst'' ''BOB'' chat) 5 =
     Some (snd (queueLine (Connection 5 ''127.0.0.1:5005'' 512 1048576) ('':alice!alice@127.0.0.1 PRIVMSG BOB psst'' @ crlf)))"
proof -
  have reg: "clients chat = two_clients" by (simp add: chat_def)
  have "registry_inv (clients chat)" "registry_nick (clients chat) 5 = Some ''bob''"
    using two_clients_inv find_two_clients [of 5] by (simp_all add: reg registry_nick_def)
  moreover have "canonicalNick ''bob'' = canonicalNick ''BOB''" "\<not> isChannelTarget ''BOB''" by code_simp+
  moreover have "om_keys (conns (privmsgTarget 4 ''psst'' ''BOB'' chat)) = om_keys (conns chat)" by code_simp
  then have "om_dom (conns (privmsgTarget 4 ''psst'' ''BOB'' chat)) = om_dom (conns chat)" by (metis om_dom_keys)
  moreover have "formatMessage (prefixFor chat 4) ''PRIVMSG'' [''BOB'', ''psst''] =
      '':alice!alice@127.0.0.1 PRIVMSG BOB psst'' @ crlf" by code_simp
  ultimately show ?thesis
    using privmsg_direct_exact [of chat 5 "''bob''" "''BOB''" _ 4 "''psst''" 5] by (simp add: findConnection_def chat_def)
qed

section \<open>Common channels\<close>

text \<open>
  An announcement to the channels of a client (the NICK line) is queued exactly once for everybody who
  shares a channel with it, however many channels they share, and for nobody else.
\<close>

lemma common_announced_once:
  assumes "w' = broadcastToCommon fd line includeSelf w" and "om_dom (conns w') = om_dom (conns w)"
  shows "w_app w' = w_app w \<and>
    findConnection w' g =
      (if (\<exists>n ch. om_get (channels w) n = Some ch \<and> hasMember ch fd \<and> hasMember ch g) \<and> (includeSelf \<or> g \<noteq> fd)
       then map_option (\<lambda>c. snd (queueLine c line)) (findConnection w g) else findConnection w g)"
proof -
  let ?t = "common_targets (channels w) fd"
  let ?s = "if includeSelf then ?t else os_erase fd ?t"
  have "set (om_keys ?s) = {m. (\<exists>n ch. om_get (channels w) n = Some ch \<and> hasMember ch fd \<and> hasMember ch m) \<and>
      (includeSelf \<or> m \<noteq> fd)}"
    using set_common_targets [of "channels w" fd] by (auto simp: om_dom_keys)
  moreover have "w' = sendEach (om_keys ?s) line w" using assms(1) by (simp add: broadcastToCommon_def Let_def)
  ultimately show ?thesis
    using assms(2) sendEach_exact [of "om_keys ?s" line w g] by (simp add: om.distinct_keys_of)
qed

section \<open>From one parser to the other\<close>

text \<open>
  C29: End to end: a message that fits on the wire and holds no line feed, formatted by the server and
  accepted by the output queue, adds bytes from which the parser of the receiver reads exactly this one message back,
  with nothing left over and no error.
\<close>

theorem relayed_message_parses:
  assumes "wire_ok m" and "LF \<notin> set (frame_body m)" and "conn_wf c"
    and "queueLine c (formatMessage (msg_prefix m) (msg_command m) (msg_params m)) = (True, c')"
  shows "\<exists>bytes. pending_text c' = pending_text c @ bytes \<and>
    consumeBuffer bytes = ([m\<lparr>msg_command := upper (msg_command m), msg_raw := frame_body m\<rparr>], [], None)"
proof -
  let ?m = "m\<lparr>msg_command := upper (msg_command m), msg_raw := frame_body m\<rparr>"
  have line: "formatMessage (msg_prefix m) (msg_command m) (msg_params m) = frame_body m @ crlf"
    using assms(1) formatMessage_toLine [of m] by (simp add: wire_ok_def toLine_frame_body)
  have "rstrip line_end (frame_body m @ crlf) = frame_body m"
    using assms(1) by (subst rstrip_append_all) (auto simp: wire_ok_def intro: rstrip_id)
  moreover have "length (frame_body m @ crlf) < 2 ^ 64" using assms(1) by (simp add: wire_ok_def)
  ultimately have "cn_writeBuffer c' = cn_writeBuffer c @ frame_body m @ crlf" "cn_writeOffset c' = cn_writeOffset c"
    using assms(4) queueLine_eq [OF assms(3), of "frame_body m @ crlf"] by (auto simp: line split: if_splits)
  then have "pending_text c' = pending_text c @ frame_body m @ crlf"
    using assms(3) by (simp add: pending_text_def conn_wf_def)
  moreover have "parseLine (frame_body m @ [CR]) = Inr ?m"
    using parseLine_toLine [OF assms(1)] parseLine_snoc_LF [of "frame_body m @ [CR]"]
    by (simp add: toLine_frame_body)
  then have "consumeBuffer (frame_body m @ crlf) = ([?m], [], None)"
    using consumeFrames_cons [of "frame_body m @ [CR]" "[]" "[]" None] assms(2) consumeFrames_none [of "[]" "[?m]" None]
    by (simp add: consumeBuffer_def)
  ultimately show ?thesis by blast
qed

theorem relayed_message_parses_witness:
  "\<exists>bytes. pending_text (snd (queueLine (Connection 5 ''p'' 512 64) ('':al!u@h PRIVMSG #a :hi you'' @ crlf))) = bytes \<and>
     consumeBuffer bytes = ([\<lparr>msg_prefix = ''al!u@h'', msg_command = ''PRIVMSG'', msg_params = [''#a'', ''hi you''],
       msg_raw = '':al!u@h PRIVMSG #a :hi you''\<rparr>], [], None)"
proof -
  let ?m = "\<lparr>msg_prefix = ''al!u@h'', msg_command = ''PRIVMSG'', msg_params = [''#a'', ''hi you''], msg_raw = []\<rparr>"
  let ?c = "Connection 5 ''p'' 512 64"
  have pre: "wire_ok ?m" "LF \<notin> set (frame_body ?m)" "conn_wf ?c" by code_simp+
  have "fst (queueLine ?c (formatMessage (msg_prefix ?m) (msg_command ?m) (msg_params ?m)))" by code_simp
  moreover have "fst p \<Longrightarrow> p = (True, snd p)" for p :: "bool \<times> connection" by (cases p) simp
  ultimately have "queueLine ?c (formatMessage (msg_prefix ?m) (msg_command ?m) (msg_params ?m)) =
      (True, snd (queueLine ?c (formatMessage (msg_prefix ?m) (msg_command ?m) (msg_params ?m))))" by blast
  moreover have "formatMessage (msg_prefix ?m) (msg_command ?m) (msg_params ?m) = '':al!u@h PRIVMSG #a :hi you'' @ crlf"
    "upper (msg_command ?m) = ''PRIVMSG''" "frame_body ?m = '':al!u@h PRIVMSG #a :hi you''" "pending_text ?c = []"
    by code_simp+
  ultimately show ?thesis using relayed_message_parses [OF pre] by simp
qed

section \<open>Ownership of a moved connection\<close>

text \<open>
  Move construction and move assignment leave one owner: when all objects involved are destroyed
  afterwards, in either order, the descriptor of the source and the one of the overwritten target are
  closed exactly once each, and the moved-from object cannot report a wrapped byte count.
\<close>

lemma move_single_owner:
  assumes "conn_move residue other = (new, old)" and "conn_move_assign residue False this other w = ((new', old'), w')"
  shows "os_closed (w_os (closeFd old (closeFd new w))) = os_closed (w_os (closeFd other w)) \<and>
    os_closed (w_os (closeFd new (closeFd old w))) = os_closed (w_os (closeFd other w)) \<and>
    os_closed (w_os (closeFd old' (closeFd new' w'))) = os_closed (w_os (closeFd other (closeFd this w))) \<and>
    pendingBytes old = length (cn_writeBuffer old) \<and> pendingBytes old' = length (cn_writeBuffer old')"
  using assms by (auto simp: conn_move_def conn_move_assign_def closeFd_def pendingBytes_def)

section \<open>Target lists\<close>

lemma splitFrom_last: "CHR '','' \<notin> set v \<Longrightarrow> splitFrom v = (if v = [] then [] else [v])"
  by (subst splitFrom.simps) (simp add: str_find_None_iff [THEN iffD2])

lemma splitFrom_cons:
  "CHR '','' \<notin> set v \<Longrightarrow> splitFrom (v @ CHR '','' # rest) = (if v = [] then [] else [v]) @ splitFrom rest"
  by (subst splitFrom.simps) (simp add: str_find_append)

lemma splitFrom_parts: "p \<in> set (splitFrom s) \<Longrightarrow> p \<noteq> [] \<and> CHR '','' \<notin> set p"
proof (induction "length s" arbitrary: s rule: less_induct)
  case less
  show ?case
  proof (cases "CHR '','' \<in> set s")
    case False
    with less.prems show ?thesis by (simp add: splitFrom_last split: if_splits)
  next
    case True
    then obtain v rest where s: "s = v @ CHR '','' # rest" "CHR '','' \<notin> set v" by (metis split_list_first)
    then have "p \<in> set (splitFrom rest) \<Longrightarrow> ?thesis" using less.hyps [of rest] by simp
    with less.prems s show ?thesis by (auto simp: splitFrom_cons split: if_splits)
  qed
qed

text \<open>
  Splitting a target list inverts joining one with commas, and it never yields an empty or a
  comma-containing target, whatever empty entries the list has.
\<close>

lemma split_targets:
  "(\<forall>p \<in> set (splitComma s). p \<noteq> [] \<and> CHR '','' \<notin> set p) \<and>
   ((\<forall>v \<in> set vs. v \<noteq> [] \<and> CHR '','' \<notin> set v) \<longrightarrow> splitComma (joinWords vs '','') = vs)"
proof -
  have "splitFrom (joinWords vs '','') = vs" if "\<forall>v \<in> set vs. v \<noteq> [] \<and> CHR '','' \<notin> set v"
    using that
  proof (induction vs rule: induct_list012)
    case 1
    show ?case by (simp add: splitFrom_last)
  next
    case (2 v)
    then show ?case by (simp add: splitFrom_last)
  next
    case (3 v v' vs)
    then show ?case using splitFrom_cons [of v "joinWords (v' # vs) '',''"] by simp
  qed
  then show ?thesis using splitFrom_parts by (auto simp: splitComma_def)
qed

section \<open>Closing after the last byte\<close>

text \<open>The cascade sends nothing itself: output leaves only through \<open>flushPending\<close>.\<close>

lemma output_frame [simp]:
  "os_output (w_os (snd (updateFd_call em fd i w))) = os_output (w_os w)" "os_output (w_os (detach fd w)) = os_output (w_os w)"
  "os_output (w_os (closeFd c w)) = os_output (w_os w)"
  by (auto simp: detach_def updateFd_call_def removeFd_call_def set_manager_def closeFd_def Let_def
      split: prod.splits option.splits)

lemma cascade_output:
  shows "os_output (w_os (snd (sendTo fd1 line1 w1))) = os_output (w_os w1)"
    and "os_output (w_os (snd (refreshInterest fd2 w2))) = os_output (w_os w2)"
    and "os_output (w_os (disconnect fd3 r3 w3)) = os_output (w_os w3)"
    and "os_output (w_os (onDisconnect c4 r4 w4)) = os_output (w_os w4)"
    and "os_output (w_os (removeClientState fd5 r5 n5 w5)) = os_output (w_os w5)"
    and "os_output (w_os (sendEach ps line6 w6)) = os_output (w_os w6)"
proof (induction fd1 line1 w1 and fd2 w2 and fd3 r3 w3 and c4 r4 w4 and fd5 r5 n5 w5 and ps line6 w6
    rule: cascade_induct)
  case (1 fd line w)
  then show ?case by (auto simp: sendTo.simps split: option.splits prod.splits)
next
  case (2 fd w)
  then show ?case by (auto simp: refreshInterest.simps Let_def split: option.splits)
next
  case (3 fd reason w)
  then show ?case by (auto simp: disconnect.simps Let_def split: option.splits)
next
  case (4 connection reason w)
  then show ?case by (simp add: onDisconnect.simps Let_def)
next
  case (5 fd reason notifyPeers w)
  then show ?case by (auto simp: removeClientState.simps Let_def split: option.splits)
qed simp_all

text \<open>The kernel takes everything: each answer is an interruption or takes some bytes, and they add up.\<close>

definition bytes_taken :: "send_answer list \<Rightarrow> nat" where
  "bytes_taken script = sum_list (map (\<lambda>a. case a of Sent n \<Rightarrow> n | SendFail _ \<Rightarrow> 0) script)"

definition progressing :: "send_answer list \<Rightarrow> bool" where
  "progressing script \<longleftrightarrow> (\<forall>a \<in> set script. case a of Sent n \<Rightarrow> 0 < n | SendFail e \<Rightarrow> e = EINTR)"

lemma sendLoop_complete:
  assumes "progressing script" and "bytes_taken script = length (pending_text c)"
  shows "\<exists>c' rest. sendLoop strerror c r out script = (c', r, out @ pending_text c, rest) \<and> \<not> wantsWrite c' \<and>
    cn_fd c' = cn_fd c \<and> cn_closeRequested c' = cn_closeRequested c"
  using assms
proof (induction script arbitrary: c out)
  case Nil
  then show ?case by (auto simp: bytes_taken_def wantsWrite_iff)
next
  case (Cons a script)
  show ?case
  proof (cases a)
    case (Sent n)
    let ?c = "c\<lparr>cn_writeOffset := cn_writeOffset c + n\<rparr>"
    from Sent Cons.prems have n: "0 < n" "n \<le> length (pending_text c)" "bytes_taken script = length (pending_text ?c)"
      and p: "progressing script"
      by (auto simp: progressing_def bytes_taken_def pending_text_def)
    have "pending_text c = take n (pending_text c) @ pending_text ?c"
      by (simp add: pending_text_def add.commute flip: drop_drop)
    then have "(out @ take n (drop (cn_writeOffset c) (cn_writeBuffer c))) @ pending_text ?c = out @ pending_text c"
      by (simp add: pending_text_def)
    moreover have "wantsWrite c" "n \<le> length (cn_writeBuffer c) - cn_writeOffset c"
      using n(1,2) by (auto simp: wantsWrite_def pending_text_def)
    ultimately show ?thesis
      using Cons.IH [OF p n(3), of "out @ take n (drop (cn_writeOffset c) (cn_writeBuffer c))"] Sent n(1)
      by simp
  next
    case (SendFail e)
    with Cons show ?thesis by (auto simp: progressing_def bytes_taken_def wantsWrite_iff)
  qed
qed

lemma flushPending_complete:
  assumes "progressing script" and "bytes_taken script = length (pending_text c)"
  obtains c' r rest where "flushPending strerror c script = (c', r, pending_text c, rest)"
    and "\<not> wantsWrite c'" "\<not> wr_hasError r" "cn_fd c' = cn_fd c" "cn_closeRequested c' = cn_closeRequested c"
proof -
  from sendLoop_complete [OF assms, of strerror WriteResult "[]"] obtain c1 rest where
    "sendLoop strerror c WriteResult [] script = (c1, WriteResult, pending_text c, rest)" "\<not> wantsWrite c1"
    "cn_fd c1 = cn_fd c" "cn_closeRequested c1 = cn_closeRequested c" by auto
  then show thesis
    by (intro that [of "c1\<lparr>cn_writeBuffer := [], cn_writeOffset := 0\<rparr>" "WriteResult\<lparr>wr_finished := True\<rparr>" rest])
       (auto simp: flushPending_def wantsWrite_def WriteResult_def)
qed

text \<open>
  C23: A connection that is to be closed is closed as soon as its last byte is out: when the kernel reports it writable and takes
  what is pending, in one piece or in several and with interruptions, the bytes written are exactly the pending ones, the
  connection is gone, its descriptor is closed once, and the service invariant holds.
\<close>

theorem graceful_close:
  assumes ok: "service_ok {} {} w" and conn: "findConnection w (ev_fd ev) = Some c" "cn_closeRequested c"
    and ev: "\<not> ev_error ev" "hasInterest (ev_interests ev) WriteInterest"
    and script: "progressing (os_send (w_os w) (ev_fd ev))" "bytes_taken (os_send (w_os w) (ev_fd ev)) = length (pending_text c)"
    and w': "w' = handleClientEvent ev w"
  shows "os_output (w_os w') = os_output (w_os w) @ [(ev_fd ev, pending_text c)] \<and> findConnection w' (ev_fd ev) = None \<and>
    count_list (os_closed (w_os w')) (ev_fd ev) = count_list (os_closed (w_os w)) (ev_fd ev) + 1 \<and> service_ok {} {} w'"
proof -
  let ?fd = "ev_fd ev"
  have s: "server_ok {} w" using ok by (simp add: service_ok_def)
  have c: "cn_fd c = ?fd" "wantsWrite c" using server_okD(1,5) [OF s conn(1)] conn(2) by (simp_all add: attended_def)
  obtain c' r rest where f: "flushPending (strerror_of w) c (os_send (w_os w) ?fd) = (c', r, pending_text c, rest)"
    and c': "\<not> wantsWrite c'" "\<not> wr_hasError r" "cn_fd c' = cn_fd c" "cn_closeRequested c' = cn_closeRequested c"
    using flushPending_complete [OF script] by metis
  obtain w1 where call: "flushPending_call ?fd c w = (r, w1)" and w1: "findConnection w1 = (findConnection w)(?fd \<mapsto> c')"
    "os_output (w_os w1) = os_output (w_os w) @ [(?fd, pending_text c)]" "os_closed (w_os w1) = os_closed (w_os w)"
    by (auto simp: flushPending_call_def f findConnection_def fun_eq_iff)
  have "\<exists>reason. w' = disconnect ?fd reason w1"
    unfolding w' handleClientEvent_def conn(1) option.case Let_def c(1)
    using conn ev c c' by (auto simp: writePhase_def call w1(1) finishEvent_def refreshInterest.simps)
  then obtain reason where d: "w' = disconnect ?fd reason w1" by blast
  have "keyed w1" using server_okD(1,2) [OF s] conn(1) c c' w1(1) by (auto simp: keyed_def)
  then have "closes w1 w'" using cascade_closes(3) unfolding d by blast
  moreover have "service_ok {} {} w'"
    using steady_handleClientEvent [of "w_server w" w ev] ok by (simp add: w' steady_def)
  ultimately show ?thesis using w1 disconnect_removes [of ?fd reason w1] by (simp add: d cascade_output closes_def)
qed

text \<open>Bob has one line of output left and is to be closed; the kernel takes it in two pieces, with an interruption.\<close>

definition leaving_world :: world where
  "leaving_world =
     (let w = requestClose 5 ''bye'' (snd (sendTo 5 ''PING x'' chat)) in
      w\<lparr>w_os := (w_os w)\<lparr>os_send := (\<lambda>_. [Sent 3, SendFail EINTR, Sent 5])\<rparr>\<rparr>)"

lemma leaving_ok: "service_ok {} {} leaving_world"
  unfolding leaving_world_def Let_def
  by (rule svc.outside [OF cmd.send_closing [OF chat_ok, of 5 "''bye''" "''PING x''"]]) (simp add: undisturbed_def)

theorem graceful_close_witness:
  "findConnection (handleClientEvent (epoll_event 5 EPOLLOUT (SockError None)) leaving_world) 5 = None"
proof -
  let ?ev = "epoll_event 5 EPOLLOUT (SockError None)"
  have ev: "ev_fd ?ev = 5" "\<not> ev_error ?ev" "hasInterest (ev_interests ?ev) WriteInterest" by code_simp+
  have "case findConnection leaving_world 5 of None \<Rightarrow> False | Some c \<Rightarrow> cn_closeRequested c \<and> length (pending_text c) = 8" by code_simp
  then obtain c where c: "findConnection leaving_world 5 = Some c" "cn_closeRequested c" "length (pending_text c) = 8"
    by (auto split: option.splits)
  have "os_send (w_os leaving_world) 5 = [Sent 3, SendFail EINTR, Sent 5]" by (simp add: leaving_world_def Let_def)
  then have script: "progressing (os_send (w_os leaving_world) 5)" "bytes_taken (os_send (w_os leaving_world) 5) = 8"
    by (simp_all add: progressing_def bytes_taken_def)
  from graceful_close [OF leaving_ok, of ?ev c] c ev script show ?thesis by simp
qed

end
