(* ===== verification/Policy.thy ===== *)
theory Policy
  imports Server_Invariant Traffic
begin

text \<open>
  The rules of the service: who may change a channel, what JOIN, KICK and PART do to the membership, and
  what an unregistered client can do.  \<open>unaffected w w'\<close> says that nothing changed but for the clients that
  lost their connection.
\<close>

definition unaffected :: "world \<Rightarrow> world \<Rightarrow> bool" where
  "unaffected w w' \<longleftrightarrow> restricted w (\<lambda>g. findConnection w' g \<noteq> None) w'"

lemma unaffected_refl: "service_ok {} E w \<Longrightarrow> unaffected w w"
  using restricted_refl [of "{}" E w] by (simp add: unaffected_def alive_empty)

lemma unaffected_sendTo:
  assumes "service_ok {} E w"
  shows "unaffected w (snd (sendTo fd line w))"
  using restr.sendTo_keeps [of "{}" E w w fd line] restricted_refl [OF assms] assms by (simp add: unaffected_def alive_empty)

lemma unaffected_sendEach:
  assumes "service_ok {} E w"
  shows "unaffected w (sendEach ps line w)"
  using restr.sendEach [of "{}" E w w ps line] restricted_refl [OF assms] assms by (simp add: unaffected_def alive_empty)

lemma unaffected_reply:
  assumes "service_ok {} E w"
  shows "unaffected w (snd (sendNumeric fd n ps t w))" and "unaffected w (snd (sendNumericRaw fd n ps w))"
    and "unaffected w (snd (findChannelForCommand fd name b w))" and "unaffected w (broadcastToChannel name line x w)"
  using assms
  by (auto simp: sendNumeric_def sendNumericRaw_def sendRaw_def findChannelForCommand_def broadcastToChannel_def
      unaffected_sendTo unaffected_sendEach unaffected_refl split: option.splits)

lemma unaffected_find:
  assumes "service_ok {} E w" and "om_get (channels w) name = Some ch"
    and "\<And>w1. w1 = w \<Longrightarrow> unaffected w (k ch w1)"
  shows "unaffected w (case findChannelForCommand fd name b w of (None, w1) \<Rightarrow> w1 | (Some ch, w1) \<Rightarrow> k ch w1)"
  using assms unaffected_reply(3) [OF assms(1), of fd name b]
  by (auto simp: findChannelForCommand_def split: if_splits)

section \<open>Operator privileges\<close>

text \<open>
  C10: A client that is not an operator of a channel cannot KICK from it or change its modes, cannot set
  the topic of a channel with protected topic and cannot invite to an invite-only channel: whatever it
  sends, channels and client states stay as they were, but for clients that lose their connection.
\<close>

theorem operator_required:
  assumes "service_ok {} E w" and "om_get (channels w) name = Some ch" and "\<not> isOperator ch fd"
  shows "unaffected w (handleKick fd (IrcMessage prefix ''KICK'' (name # nick # rest)) w) \<and>
    unaffected w (handleChannelMode fd (IrcMessage prefix ''MODE'' (name # modes # rest)) w) \<and>
    (ch_topicProtected ch \<longrightarrow> unaffected w (handleTopic fd (IrcMessage prefix ''TOPIC'' (name # topic # rest)) w)) \<and>
    (ch_inviteOnly ch \<longrightarrow> unaffected w (handleInvite fd (IrcMessage prefix ''INVITE'' (nick # name # rest)) w))"
  unfolding handleKick_def handleChannelMode_def handleTopic_def handleInvite_def Let_def
  using assms
  by (auto simp: IrcMessage_def intro!: unaffected_find [OF assms(1,2)] unaffected_reply [OF assms(1)])

theorem operator_required_witness:
  "unaffected chat (handleKick 5 (IrcMessage [] ''KICK'' [''#a'', ''alice'']) chat) \<and>
   unaffected chat (handleChannelMode 5 (IrcMessage [] ''MODE'' [''#a'', ''+o'', ''bob'']) chat)"
proof -
  have "om_get (channels chat) ''#a'' = Some room" "\<not> isOperator room 5" by (simp_all add: chat_def room_def)
  from operator_required [OF chat_ok this] show ?thesis by blast
qed

section \<open>Joining\<close>

text \<open>
  An invite-only channel admits nobody who is not invited: the JOIN of such a client changes nothing,
  in particular not the membership.
\<close>

lemma invite_only_enforced:
  assumes "service_ok {} E w" and "om_get (channels w) name = Some ch" and "ch_inviteOnly ch" and "\<not> hasMember ch fd"
    and "registry_find (clients w) fd = Some st" and "\<not> isInvited ch (cs_nick st)" and "w' = snd (joinChannel fd name w)"
  shows "unaffected w w' \<and> (\<forall>ch'. om_get (channels w') name = Some ch' \<longrightarrow> \<not> hasMember ch' fd)"
proof -
  have "isValidName name" using service_channelD [OF assms(1,2)] by (simp add: channel_ok_def)
  then have "w' = snd (sendNumeric fd 473 [name] ''Cannot join channel (+i)'' w)"
    using assms(2-) by (simp add: joinChannel_def ensureChannel_def)
  then have "unaffected w w'" using unaffected_reply(1) [OF assms(1)] by simp
  then show ?thesis using assms(2,4) by (auto simp: unaffected_def restricted_def split: if_splits)
qed

lemma connected_iff: "service_ok {} E w \<Longrightarrow> findConnection w g \<noteq> None \<longleftrightarrow> registry_find (clients w) g \<noteq> None"
  by (auto simp: service_ok_def dest: app_okD(3) [of _ _ g])

lemma unaffected_channel:
  assumes "unaffected w w'" and "om_get (channels w') n = Some ch'"
  obtains ch where "om_get (channels w) n = Some ch" and "ch' = restrict_channel (\<lambda>g. findConnection w' g \<noteq> None) ch"
  using assms by (auto simp: unaffected_def restricted_def split: option.splits if_splits)

lemma isInvited_restrict [simp]: "isInvited (restrict_channel f ch) n = isInvited ch n"
  by (simp add: isInvited_def restrict_channel_def)

text \<open>The state between the change of the channel and the announcement of a JOIN that succeeds.\<close>

lemma joinChannel_success:
  assumes ok: "service_ok {} E w" and st: "registry_find (clients w) fd = Some st" "cs_registered st"
    and valid: "isValidName name" and e: "ensureChannel name w = (ch, w1)" and new: "\<not> hasMember ch fd"
    and adm: "ch_inviteOnly ch \<longrightarrow> isInvited ch (cs_nick st)" and j: "joinChannel fd name w = (True, w')"
  obtains cur where "om_get (channels w') name = Some cur"
    and "cur = restrict_channel (\<lambda>g. findConnection w' g \<noteq> None) (clearInvite (addMember ch fd (Channel_empty ch)) (cs_nick st))"
    and "findConnection w' fd \<noteq> None"
proof -
  let ?ch = "clearInvite (addMember ch fd (Channel_empty ch)) (cs_nick st)"
  let ?w2 = "set_channels (om_put name ?ch (channels w1)) w1"
  let ?w3 = "broadcastToChannel name (formatMessage (prefixFor ?w2 fd) ''JOIN'' [name]) (-1) ?w2"
  have c: "registered_as fd w" using st by (simp add: registered_as_def)
  have keep: "clients w1 = clients w" using e by (cases rule: ensureChannel_cases) simp_all
  have ok2: "service_ok {} E ?w2" by (rule cmd.by_client.joined [OF ok e valid st new]) (use adm in blast)
  have ok3: "service_ok {} E ?w3" by (rule cmd.broadcastToChannel [OF ok2])
  have ok': "service_ok {} E w'" using cmd.by_client.joinChannel [OF ok c, of name] j by simp
  have open_to: "(ch_inviteOnly ch \<and> \<not> isInvited ch (cs_nick st)) = False" using adm by blast
  have body: "joinChannel fd name w =
      (if \<not> registry_contains (clients ?w3) fd then (False, ?w3)
       else case om_get (channels ?w3) name of None \<Rightarrow> (False, ?w3)
         | Some cur \<Rightarrow> (case sendTopicReply fd cur ?w3 of (False, w4) \<Rightarrow> (False, w4)
             | (True, w4) \<Rightarrow> (case om_get (channels w4) name of None \<Rightarrow> (False, w4) | Some cur \<Rightarrow> sendNames fd cur w4)))"
    using valid new st(1) by (simp add: joinChannel_def e keep Let_def open_to)
  from j obtain cur cur' w4 where cur: "om_get (channels ?w3) name = Some cur" "sendTopicReply fd cur ?w3 = (True, w4)"
    and rest: "sendNames fd cur' w4 = (True, w')"
    unfolding body by (auto split: if_splits option.splits prod.splits bool.splits)
  have app: "w_app w' = w_app ?w3" and here: "findConnection w' fd \<noteq> None"
    using sendTopicReply_True [OF cur(2)] sendNames_True [OF rest] by auto
  have live: "(\<lambda>g. findConnection ?w3 g \<noteq> None) = (\<lambda>g. findConnection w' g \<noteq> None)"
    using connected_iff [OF ok3] connected_iff [OF ok'] by (simp only: app)
  have "unaffected ?w2 ?w3" by (rule unaffected_reply(4) [OF ok2])
  then obtain ch2 where "om_get (channels ?w2) name = Some ch2" "cur = restrict_channel (\<lambda>g. findConnection w' g \<noteq> None) ch2"
    using cur(1) unfolding live [symmetric] by (rule unaffected_channel)
  then have "cur = restrict_channel (\<lambda>g. findConnection w' g \<noteq> None) ?ch" by simp
  with cur(1) here app show thesis by (intro that) simp_all
qed

text \<open>
  C17: A JOIN that goes through makes the client a member, an operator exactly when the channel did not
  exist before, and uses up its invitation; the other members are those of before that are still
  connected.
\<close>

theorem join_membership:
  assumes ok: "service_ok {} E w" and st: "registry_find (clients w) fd = Some st" "cs_registered st"
    and valid: "isValidName name" and new: "\<forall>ch. om_get (channels w) name = Some ch \<longrightarrow> \<not> hasMember ch fd"
    and adm: "\<forall>ch. om_get (channels w) name = Some ch \<and> ch_inviteOnly ch \<longrightarrow> isInvited ch (cs_nick st)"
    and j: "joinChannel fd name w = (True, w')"
  shows "\<exists>ch'. om_get (channels w') name = Some ch' \<and> hasMember ch' fd \<and>
    (isOperator ch' fd \<longleftrightarrow> om_get (channels w) name = None) \<and> \<not> isInvited ch' (cs_nick st) \<and>
    (\<forall>m. m \<noteq> fd \<longrightarrow> hasMember ch' m =
       (findConnection w' m \<noteq> None \<and> (\<exists>ch. om_get (channels w) name = Some ch \<and> hasMember ch m)))"
proof -
  obtain ch w1 where e: "ensureChannel name w = (ch, w1)" by fastforce
  have ch: "\<not> hasMember ch fd" "ch_inviteOnly ch \<longrightarrow> isInvited ch (cs_nick st)"
    "isOperator ch fd \<or> Channel_empty ch \<longleftrightarrow> om_get (channels w) name = None"
    "hasMember ch m \<longleftrightarrow> (\<exists>ch. om_get (channels w) name = Some ch \<and> hasMember ch m)" for m
  proof (atomize (full), goal_cases)
    case 1
    show ?case using e
    proof (cases rule: ensureChannel_cases)
      case old
      with service_channelD [OF ok old(1)] new adm show ?thesis
        by (auto simp: channel_ok_def channel_wf_def Channel_empty_iff)
    next
      case (new t f nm fs)
      then show ?thesis by (simp add: Channel_empty_iff Channel_def hasMember_def)
    qed
  qed
  obtain cur where "om_get (channels w') name = Some cur" "findConnection w' fd \<noteq> None"
    "cur = restrict_channel (\<lambda>g. findConnection w' g \<noteq> None) (clearInvite (addMember ch fd (Channel_empty ch)) (cs_nick st))"
    using joinChannel_success [OF ok st valid e ch(1,2) j] by blast
  moreover have "\<not> isInvited (clearInvite c n) n" for c n by (simp add: isInvited_def clearInvite_def)
  ultimately show ?thesis using ch(3,4) by auto
qed

lemma fst_True: "fst p \<Longrightarrow> p = (True, snd p)"
  by (cases p) simp

theorem join_membership_witness:
  "\<exists>ch'. om_get (channels (snd (joinChannel 5 ''#b'' chat))) ''#b'' = Some ch' \<and> hasMember ch' 5 \<and> isOperator ch' 5"
proof -
  let ?st = "(member_state 5 ''bob'')\<lparr>cs_nick := ''bob'', cs_hasNick := True\<rparr>"
  have st: "registry_find (clients chat) 5 = Some ?st" "cs_registered ?st"
    by (simp_all add: chat_def find_two_clients member_state_def)
  have none: "om_get (channels chat) ''#b'' = None" by (simp add: chat_def)
  have "isValidName ''#b''" by code_simp
  moreover have "fst (joinChannel 5 ''#b'' chat)" by code_simp
  ultimately show ?thesis
    using join_membership [OF chat_ok st _ _ _ fst_True, of "''#b''"] none by auto
qed

section \<open>Leaving\<close>

lemma dropMember_membership:
  assumes "om_get (channels (dropMember name x w)) n = Some ch'"
  obtains ch where "om_get (channels w) n = Some ch" and "hasMember ch' = (\<lambda>m. hasMember ch m \<and> \<not> (n = name \<and> m = x))"
  using assms by (fastforce simp: dropMember_eq split: option.splits if_splits)

lemma unaffected_membership:
  assumes "unaffected w w'" and "om_get (channels w') n = Some ch'"
  obtains ch where "om_get (channels w) n = Some ch"
    and "hasMember ch' = (\<lambda>m. hasMember ch m \<and> findConnection w' m \<noteq> None)"
proof -
  from assms obtain ch where c: "om_get (channels w) n = Some ch"
    and ch': "ch' = restrict_channel (\<lambda>g. findConnection w' g \<noteq> None) ch" by (rule unaffected_channel)
  from c show thesis by (rule that) (auto simp: ch' fun_eq_iff)
qed

text \<open>The channels after a member is dropped, given that they were restricted to the living before.\<close>

lemma dropMember_restricted:
  assumes "unaffected w w1" and conns: "conns w1 = conns w'" and w': "w' = dropMember name x w1"
  shows "om_get (channels w') n =
    (case om_get (channels w) n of
       None \<Rightarrow> None
     | Some old \<Rightarrow>
         let stays = \<lambda>m. findConnection w' m \<noteq> None \<and> \<not> (n = name \<and> m = x)
         in if \<exists>m. hasMember old m \<and> stays m then Some (restrict_channel stays old) else None)"
proof -
  let ?live = "\<lambda>m. findConnection w' m \<noteq> None"
  have live: "findConnection w1 = findConnection w'" using conns by (simp add: findConnection_def fun_eq_iff)
  have mid: "om_get (channels w1) n = (case om_get (channels w) n of None \<Rightarrow> None
      | Some old \<Rightarrow> if \<exists>m. hasMember old m \<and> ?live m then Some (restrict_channel ?live old) else None)" for n
    using assms(1) unfolding unaffected_def restricted_def live by (elim conjE) (erule spec)
  show ?thesis
  proof (cases "n = name")
    case False
    then show ?thesis using mid [of n] mid [of name]
      by (auto simp: w' [THEN arg_cong [where f = channels]] dropMember_eq split: option.splits)
  next
    case True
    then show ?thesis using mid [of name]
      by (cases "om_get (channels w) name")
         (auto simp: w' [THEN arg_cong [where f = channels]] dropMember_eq Channel_empty_iff removeMember_restrict conj_commute
           split: option.splits)
  qed
qed

text \<open>
  C18: When an operator kicks a member, exactly the target leaves exactly this channel: afterwards every channel is the one
  of before, with the same modes, topic and invitations, restricted to the members and operators that are still connected and,
  in this channel, not the target, and it is gone only if nobody is left.  All clients that are still connected, the target
  among them, keep their states.
\<close>

theorem kick_removes_target:
  assumes ok: "service_ok {} E w" and ch: "om_get (channels w) name = Some ch" "isOperator ch fd"
    and target: "findNick w nick = target" "target \<noteq> -1" "hasMember ch target"
    and w': "w' = handleKick fd (IrcMessage prefix ''KICK'' (name # nick # rest)) w"
  shows "(\<forall>n. om_get (channels w') n =
      (case om_get (channels w) n of
         None \<Rightarrow> None
       | Some old \<Rightarrow>
           let stays = \<lambda>m. findConnection w' m \<noteq> None \<and> \<not> (n = name \<and> m = target)
           in if \<exists>m. hasMember old m \<and> stays m then Some (restrict_channel stays old) else None)) \<and>
    (\<forall>m. registry_find (clients w') m = (if findConnection w' m \<noteq> None then registry_find (clients w) m else None))"
proof -
  have name: "ch_name ch = name" "hasMember ch fd"
    using service_channelD [OF ok ch(1)] ch(2) by (auto simp: channel_ok_def channel_wf_def)
  then obtain line where k: "w' = dropMember name target (broadcastToChannel name line (-1) w)"
    unfolding w' using ch target
    by (simp add: handleKick_def IrcMessage_def findChannelForCommand_def Let_def)
  let ?w1 = "broadcastToChannel name line (-1) w"
  have same: "conns ?w1 = conns w'" "clients ?w1 = clients w'" unfolding k by (simp_all add: dropMember_eq split: option.splits)
  have un: "unaffected w ?w1" by (rule unaffected_reply(4) [OF ok])
  then have "registry_find (clients w') m = (if findConnection w' m \<noteq> None then registry_find (clients w) m else None)" for m
    using same by (simp add: unaffected_def restricted_def findConnection_def)
  with dropMember_restricted [OF un same(1) k] show ?thesis by blast
qed

theorem kick_removes_target_witness:
  "\<exists>ch'. om_get (channels (handleKick 4 (IrcMessage [] ''KICK'' [''#a'', ''Bob'']) chat)) ''#a'' = Some ch' \<and>
     hasMember ch' 4 \<and> \<not> hasMember ch' 5"
proof -
  let ?w' = "handleKick 4 (IrcMessage [] ''KICK'' [''#a'', ''Bob'']) chat"
  have pre: "om_get (channels chat) ''#a'' = Some room" "isOperator room 4" "hasMember room 5" "hasMember room 4"
    by (simp_all add: chat_def room_def)
  have nick: "findNick chat ''Bob'' = 5" by code_simp
  have "om_has (conns ?w') 4" by code_simp
  then have "findConnection ?w' 4 \<noteq> None" by (auto simp: findConnection_def)
  with kick_removes_target [OF chat_ok pre(1,2) nick _ pre(3) refl, of "[]" "[]"] pre(1,4)
  show ?thesis by (auto simp: Let_def)
qed

lemma partChannel_membership:
  assumes ok: "service_ok {} E w" and "om_get (channels (partChannel fd name r w)) n = Some ch'"
  shows "\<exists>ch. om_get (channels w) n = Some ch \<and> (\<forall>m. hasMember ch' m \<longrightarrow> hasMember ch m) \<and> (n = name \<longrightarrow> \<not> hasMember ch' fd)"
proof (cases "\<exists>ch. om_get (channels w) name = Some ch \<and> hasMember ch fd")
  case True
  then obtain line where k: "partChannel fd name r w = dropMember name fd (broadcastToChannel name line (-1) w)"
    by (auto simp: partChannel_def Let_def)
  from assms(2) obtain mid where mid: "om_get (channels (broadcastToChannel name line (-1) w)) n = Some mid"
    "hasMember ch' = (\<lambda>m. hasMember mid m \<and> \<not> (n = name \<and> m = fd))"
    unfolding k by (rule dropMember_membership)
  from unaffected_reply(4) [OF ok] mid(1) obtain old where "om_get (channels w) n = Some old"
    "hasMember mid = (\<lambda>m. hasMember old m \<and> findConnection (broadcastToChannel name line (-1) w) m \<noteq> None)"
    by (rule unaffected_membership)
  with mid(2) show ?thesis by auto
next
  case False
  then have "unaffected w (partChannel fd name r w)"
    using unaffected_reply(1) [OF ok] by (auto simp: partChannel_def split: option.splits)
  from this assms(2) obtain old where "om_get (channels w) n = Some old"
    "hasMember ch' = (\<lambda>m. hasMember old m \<and> findConnection (partChannel fd name r w) m \<noteq> None)"
    by (rule unaffected_membership)
  with False show ?thesis by auto
qed

text \<open>
  \<open>JOIN 0\<close> leaves all channels: afterwards the client is a member of none, and no channel has gained a
  member.
\<close>

lemma part_all_leaves:
  assumes ok: "service_ok {} E w" and "om_get (channels (partAllChannels fd reason w)) n = Some ch'"
  shows "\<not> hasMember ch' fd \<and> (\<exists>ch. om_get (channels w) n = Some ch \<and> (\<forall>m. hasMember ch' m \<longrightarrow> hasMember ch m))"
proof -
  let ?f = "\<lambda>channelName w. partChannel fd channelName reason w"
  have walk: "\<exists>ch. om_get (channels w) n = Some ch \<and> (\<forall>m. hasMember ch' m \<longrightarrow> hasMember ch m) \<and>
      (n \<in> set names \<longrightarrow> \<not> hasMember ch' fd)"
    if "service_ok {} E w" "om_get (channels (fold ?f names w)) n = Some ch'" for names w
    using that
  proof (induction names arbitrary: w)
    case (Cons name names)
    from Cons.prems have ok1: "service_ok {} E (?f name w)" by (simp add: cmd.by_client.partChannel)
    from Cons.IH [OF ok1] Cons.prems(2) obtain mid where mid: "om_get (channels (?f name w)) n = Some mid"
      "\<forall>m. hasMember ch' m \<longrightarrow> hasMember mid m" "n \<in> set names \<longrightarrow> \<not> hasMember ch' fd" by auto
    with partChannel_membership [OF Cons.prems(1) mid(1)] show ?case by auto
  qed simp
  let ?names = "map fst (filter (\<lambda>(name, ch). hasMember ch fd) (om_entries (channels w)))"
  have "n \<in> set ?names" if "om_get (channels w) n = Some ch" "hasMember ch fd" for ch
    using that by (force simp: om_set_entries)
  with walk [OF ok assms(2) [unfolded partAllChannels_def]] show ?thesis by blast
qed

section \<open>Sessions\<close>

text \<open>
  C24: A client that has not registered can do nothing but register, PING, PONG and QUIT: any other command
  is answered with 451 and changes neither channels nor client states.
\<close>

theorem unregistered_powerless:
  assumes "service_ok {} E w" and "registry_find (clients w) fd = Some st" and "\<not> cs_registered st"
    and "msg_command m \<notin> {''PASS'', ''NICK'', ''USER'', ''PING'', ''PONG'', ''QUIT''}"
  shows "handleMessage fd m w = snd (sendNumeric fd 451 [] ''You have not registered'' w) \<and>
    unaffected w (handleMessage fd m w)"
proof -
  have "handleMessage fd m w = snd (sendNumeric fd 451 [] ''You have not registered'' w)"
    using assms(2-4) by (simp add: handleMessage_def client_ref_present)
  then show ?thesis using unaffected_reply(1) [OF assms(1)] by simp
qed

text \<open>A client that has only just connected, next to the two of \<open>chat\<close>.\<close>

definition newcomer_chat :: world where
  "newcomer_chat = acceptClient 6 OtherFamily chat"

lemma newcomer_ok: "service_ok {} {} newcomer_chat"
  using steady_acceptClient [of "w_server chat" chat 6 OtherFamily] chat_ok
  by (simp add: newcomer_chat_def steady_def) (simp add: chat_def)

theorem unregistered_powerless_witness:
  "unaffected newcomer_chat (handleMessage 6 (IrcMessage [] ''JOIN'' [''#a'']) newcomer_chat)"
proof -
  have "case registry_find (clients newcomer_chat) 6 of None \<Rightarrow> False | Some st \<Rightarrow> \<not> cs_registered st" by code_simp
  then obtain st where "registry_find (clients newcomer_chat) 6 = Some st" "\<not> cs_registered st"
    by (auto split: option.splits)
  moreover have "msg_command (IrcMessage [] ''JOIN'' [''#a'']) = ''JOIN''" by code_simp
  ultimately show ?thesis using unregistered_powerless [OF newcomer_ok, of 6 st "IrcMessage [] ''JOIN'' [''#a'']"] by auto
qed

text \<open>
  C12: Isolation of sessions: whatever line a client sends, the state of every other client is unchanged, or
  that client is gone because its connection was lost.
\<close>

theorem line_isolated:
  assumes ok: "service_ok {} {} w" and conn: "findConnection w (cn_fd c) = Some c'" and "i \<noteq> cn_fd c"
  shows "registry_find (clients (onLine c line w)) i = registry_find (clients w) i \<or>
    registry_find (clients (onLine c line w)) i = None \<and> findConnection (onLine c line w) i = None"
proof -
  let ?w' = "onLine c line w"
  have "iso.held (cn_fd c) (clients w) {} {cn_fd c} w" using svc.mono [OF ok] by (simp add: others_within_def)
  then have "iso.held (cn_fd c) (clients w) {} {cn_fd c} ?w'" using conn by (rule isolated.onLine) simp_all
  then have o: "others_within (cn_fd c) (clients w) (clients ?w')" and ok': "service_ok {} {cn_fd c} ?w'" by simp_all
  show ?thesis
  proof (cases "registry_find (clients ?w') i")
    case None
    with connected_iff [OF ok', of i] show ?thesis by auto
  next
    case (Some st)
    with o assms(3) show ?thesis by (auto simp: others_within_def)
  qed
qed

theorem line_isolated_witness:
  "registry_find (clients (onLine (Connection 4 ''127.0.0.1:5004'' 512 1048576) ''NICK carol'' chat)) 5 = registry_find (clients chat) 5"
proof -
  let ?c = "Connection 4 ''127.0.0.1:5004'' 512 1048576"
  have "findConnection chat (cn_fd ?c) = Some ?c" "(5 :: fd) \<noteq> cn_fd ?c"
    by (simp_all add: findConnection_def chat_def Connection_def)
  moreover have "registry_contains (clients (onLine ?c ''NICK carol'' chat)) 5" by code_simp
  ultimately show ?thesis
    using line_isolated [OF chat_ok, of ?c ?c 5 "''NICK carol''"] by (auto simp: registry_contains_find)
qed

text \<open>
  C11: Nobody gets past the password: as long as a client has not given the right password, no line it sends other than a PASS
  command with exactly this password marks it as authenticated or registers it.
\<close>

theorem password_required:
  assumes ok: "service_ok {} {} w" and conn: "findConnection w (cn_fd c) = Some c'"
    and pw: "app_password (w_app w) \<noteq> []"
    and wrong: "\<forall>m. parseLine line = Inr m \<and> msg_command m = ''PASS'' \<longrightarrow>
      msg_params m = [] \<or> msg_params m ! 0 \<noteq> app_password (w_app w)"
    and st: "registry_find (clients w) (cn_fd c) = Some st" "\<not> cs_passOk st"
    and st': "registry_find (clients (onLine c line w)) (cn_fd c) = Some st'"
  shows "\<not> cs_passOk st' \<and> \<not> cs_registered st'"
proof -
  have "auth.held (cn_fd c) False {} {cn_fd c} w" using svc.mono [OF ok] st by (simp add: pass_kept_def)
  then have "auth.held (cn_fd c) False {} {cn_fd c} (onLine c line w)"
    using conn by (rule guarded.onLine) (use pw wrong in auto)
  then have "pass_kept (cn_fd c) False (clients (onLine c line w))" "service_ok {} {cn_fd c} (onLine c line w)" by simp_all
  with st' show ?thesis using service_client_ok [of "{}" "{cn_fd c}" "onLine c line w"] by (auto simp: pass_kept_def client_ok_def)
qed

theorem password_required_witness:
  "\<exists>st. registry_find (clients (onLine (Connection 6 ''unknown'' 512 1048576) ''PASS wrong'' newcomer_chat)) 6 = Some st \<and>
     \<not> cs_passOk st"
proof -
  let ?c = "Connection 6 ''unknown'' 512 1048576"
  let ?w' = "onLine ?c ''PASS wrong'' newcomer_chat"
  have fd: "cn_fd ?c = 6" by (simp add: Connection_def)
  have "om_has (conns newcomer_chat) 6" by code_simp
  then obtain c' where conn: "findConnection newcomer_chat (cn_fd ?c) = Some c'" by (auto simp: findConnection_def fd)
  have "case registry_find (clients newcomer_chat) 6 of None \<Rightarrow> False | Some st \<Rightarrow> \<not> cs_passOk st" by code_simp
  then obtain st where st: "registry_find (clients newcomer_chat) (cn_fd ?c) = Some st" "\<not> cs_passOk st"
    by (auto simp: fd split: option.splits)
  have pw: "app_password (w_app newcomer_chat) \<noteq> []" by code_simp
  have "parseLine ''PASS wrong'' = Inr \<lparr>msg_prefix = [], msg_command = ''PASS'', msg_params = [''wrong''], msg_raw = ''PASS wrong''\<rparr>"
    "app_password (w_app newcomer_chat) = ''secret''" by code_simp+
  then have wrong: "\<forall>m. parseLine ''PASS wrong'' = Inr m \<and> msg_command m = ''PASS'' \<longrightarrow>
      msg_params m = [] \<or> msg_params m ! 0 \<noteq> app_password (w_app newcomer_chat)" by simp
  have "registry_contains (clients ?w') 6" by code_simp
  then obtain st' where "registry_find (clients ?w') (cn_fd ?c) = Some st'" by (auto simp: registry_contains_find fd)
  with password_required [OF newcomer_ok conn pw wrong st this] show ?thesis by (auto simp: fd)
qed

end
