(* ===== verification/Timing.thy ===== *)
theory Timing
  imports Policy
begin

text \<open>
  The two clocks of a session: the sliding window of the rate limit and the heartbeat
  (\<open>recordCommand\<close>, \<open>maintainClient\<close> and \<open>handlePong\<close>).
\<close>

section \<open>Rate limit\<close>

lemma dropWhile_sorted:
  fixes ts :: "monotonic_time list"
  assumes "sorted ts"
  shows "dropWhile (\<lambda>t. now - t \<ge> d) ts = filter (\<lambda>t. now - t < d) ts"
  using assms
proof (induction ts)
  case (Cons t ts)
  show ?case
  proof (cases "now - t \<ge> d")
    case True
    with Cons show ?thesis by simp
  next
    case False
    with Cons.prems have "\<forall>u \<in> set ts. now - u < d" by fastforce
    then have "filter (\<lambda>t. now - t < d) ts = ts" by simp
    with False show ?thesis by simp
  qed
qed simp

lemma closing_after: "findConnection (logEvent n fs (requestClose fd r w)) fd = Some c \<Longrightarrow> cn_closeRequested c"
  by (auto simp: requestClose_def findConnection_def conn_requestClose_def split: option.splits)

text \<open>
  C19: The rate limit is a sliding window: with the timestamps in the order they were recorded, a command is
  accepted exactly if it is, together with the earlier ones less than a window ago, within the limit;
  then the client state remembers exactly these timestamps, again in order.  A refused command closes the
  connection.
\<close>

theorem rate_limit_window:
  assumes st: "registry_find (clients w) fd = Some st" and "sorted (cs_commandWindow st)"
    and "\<forall>t \<in> set (cs_commandWindow st). t \<le> now"
    and limit: "limit = rt_rateLimitCount (app_runtime (w_app w))"
    and recent: "recent = filter (\<lambda>t. now - t < seconds (rt_rateLimitWindowSeconds (app_runtime (w_app w)))) (cs_commandWindow st) @ [now]"
    and rc: "recordCommand fd now w = (accepted, w')"
  shows "(accepted \<longleftrightarrow> limit = 0 \<or> length recent \<le> unat limit) \<and> sorted recent \<and>
    (accepted \<longrightarrow> registry_find (clients w') fd = Some (st\<lparr>cs_commandWindow := recent\<rparr>)) \<and>
    (\<not> accepted \<longrightarrow> (\<forall>c. findConnection w' fd = Some c \<longrightarrow> cn_closeRequested c))"
proof -
  have "sorted recent" using assms(2,3) by (auto simp: recent sorted_append sorted_wrt_filter)
  moreover have window: "dropWhile (\<lambda>t. now - t \<ge> seconds (rt_rateLimitWindowSeconds (app_runtime (w_app w)))) (cs_commandWindow st) @ [now] = recent"
    by (simp only: recent dropWhile_sorted [OF assms(2)])
  ultimately show ?thesis
    using rc unfolding recordCommand_def client_ref_present [OF st] prod.case Let_def window limit [symmetric]
    by (auto split: if_splits dest: closing_after)
qed

theorem rate_limit_window_witness:
  "\<exists>w'. recordCommand 4 9 chat = (True, w') \<and>
     registry_find (clients w') 4 = Some ((member_state 4 ''alice'')\<lparr>cs_nick := ''alice'', cs_hasNick := True, cs_commandWindow := [9]\<rparr>)"
proof -
  let ?st = "(member_state 4 ''alice'')\<lparr>cs_nick := ''alice'', cs_hasNick := True\<rparr>"
  have st: "registry_find (clients chat) 4 = Some ?st" and empty: "cs_commandWindow ?st = []"
    by (simp_all add: chat_def find_two_clients member_state_def ClientState_def)
  obtain a w' where rc: "recordCommand 4 9 chat = (a, w')" by fastforce
  have "fst (recordCommand 4 9 chat)" by code_simp
  with rc have a by simp
  moreover note rate_limit_window [OF st _ _ refl refl rc]
  ultimately show ?thesis using rc empty by simp
qed

section \<open>Heartbeat\<close>

lemma unaffected_runtime:
  assumes "unaffected w w'"
  shows "app_runtime (w_app w') = app_runtime (w_app w)"
proof -
  from assms have h: "w_app w' = (w_app w)\<lparr>app_clients := clients w', app_channels := channels w'\<rparr>"
    unfolding unaffected_def restricted_def by blast
  show ?thesis by (subst h) simp
qed

lemma maintain_silent:
  assumes "registry_find (clients w) fd = Some st" and "cs_registered st"
    and "0 < rt_idleTimeoutSeconds (app_runtime (w_app w))"
  shows "cs_awaitingPong st \<Longrightarrow> now - cs_lastPingAt st < seconds (rt_pingTimeoutSeconds (app_runtime (w_app w))) \<Longrightarrow>
      maintainClient fd now w = w"
    and "\<not> cs_awaitingPong st \<Longrightarrow> now - cs_lastActivityAt st < seconds (rt_idleTimeoutSeconds (app_runtime (w_app w))) \<Longrightarrow>
      maintainClient fd now w = w"
  using assms by (simp_all add: maintainClient_def Let_def)

lemma maintain_timeout:
  assumes "registry_find (clients w) fd = Some st" and "cs_registered st"
    and "0 < rt_idleTimeoutSeconds (app_runtime (w_app w))" and "cs_awaitingPong st"
    and "now - cs_lastPingAt st \<ge> seconds (rt_pingTimeoutSeconds (app_runtime (w_app w)))"
    and "findConnection (maintainClient fd now w) fd = Some c"
  shows "cn_closeRequested c"
  using assms by (auto simp: maintainClient_def Let_def dest: closing_after)

lemma maintain_ping:
  assumes ok: "service_ok {} E w" and st: "registry_find (clients w) fd = Some st" "cs_registered st"
    and "0 < rt_idleTimeoutSeconds (app_runtime (w_app w))" and "\<not> cs_awaitingPong st"
    and "now - cs_lastActivityAt st \<ge> seconds (rt_idleTimeoutSeconds (app_runtime (w_app w)))"
    and w': "w' = maintainClient fd now w" and here: "findConnection w' fd = Some c"
  shows "\<exists>token. registry_find (clients w') fd =
        Some (st\<lparr>cs_awaitingPong := True, cs_pendingPongToken := token, cs_lastPingAt := now\<rparr>) \<and>
      (cn_closeRequested c \<or> carries c (formatMessage (app_serverName (w_app w)) ''PING'' [token]))"
    and "app_runtime (w_app w') = app_runtime (w_app w)"
proof -
  let ?t = "app_nextHeartbeatToken (w_app w) + 1"
  let ?token = "''heartbeat-'' @ show_int fd @ ''-'' @ show_size ?t"
  let ?st = "st\<lparr>cs_awaitingPong := True, cs_pendingPongToken := ?token, cs_lastPingAt := now\<rparr>"
  let ?w2 = "put_client fd ?st (w\<lparr>w_app := (w_app w)\<lparr>app_nextHeartbeatToken := ?t\<rparr>\<rparr>)"
  let ?line = "formatMessage (app_serverName (w_app w)) ''PING'' [?token]"
  have name: "app_serverName (w_app ?w2) = app_serverName (w_app w)" by (simp add: put_client_def)
  obtain b w3 where s: "sendTo fd ?line ?w2 = (b, w3)" by fastforce
  have "w' = (if b then count_app (\<lambda>m. m\<lparr>heartbeatPings := heartbeatPings m + 1\<rparr>) w3 else w3)"
    unfolding w' using st assms(4-6) s name by (cases b) (simp_all add: maintainClient_def Let_def sendRaw_def)
  then have same: "conns w' = conns (snd (sendTo fd ?line ?w2))" "clients w' = clients (snd (sendTo fd ?line ?w2))"
    "app_runtime (w_app w') = app_runtime (w_app (snd (sendTo fd ?line ?w2)))"
    unfolding s by auto
  have ok2: "service_ok {} E ?w2"
    by (rule session.touch [where st = st]) (use ok st(1) in \<open>simp_all add: service_ok_token\<close>)
  have u: "unaffected ?w2 (snd (sendTo fd ?line ?w2))" by (rule unaffected_sendTo [OF ok2])
  have alive: "findConnection (snd (sendTo fd ?line ?w2)) fd = Some c" using here same(1) by (simp add: findConnection_def)
  then have "registry_find (clients w') fd = Some ?st" using u same(2) by (simp add: unaffected_def restricted_def)
  moreover have "cn_closeRequested c \<or> carries c ?line" by (rule sendTo_carries [OF ok2 alive])
  ultimately show "\<exists>token. registry_find (clients w') fd =
        Some (st\<lparr>cs_awaitingPong := True, cs_pendingPongToken := token, cs_lastPingAt := now\<rparr>) \<and>
      (cn_closeRequested c \<or> carries c (formatMessage (app_serverName (w_app w)) ''PING'' [token]))" by blast
  show "app_runtime (w_app w') = app_runtime (w_app w)"
    unfolding same(3) unaffected_runtime [OF u] by (simp add: put_client_def)
qed

text \<open>
  C21: The heartbeat of a registered client that has been idle for the configured time: the tick sends a
  PING with a token and remembers it; until the ping timeout further ticks do nothing, a PONG with this
  token as its only parameter ends the wait and any other PONG leaves everything as it is.
\<close>

theorem heartbeat_exchange:
  assumes ok: "service_ok {} E w" and st: "registry_find (clients w) fd = Some st" "cs_registered st" "\<not> cs_awaitingPong st"
    and idle: "0 < rt_idleTimeoutSeconds (app_runtime (w_app w))"
      "now - cs_lastActivityAt st \<ge> seconds (rt_idleTimeoutSeconds (app_runtime (w_app w)))"
    and w': "w' = maintainClient fd now w" and here: "findConnection w' fd = Some c"
  shows "\<exists>token st'. registry_find (clients w') fd = Some st' \<and> cs_awaitingPong st' \<and> cs_pendingPongToken st' = token \<and>
    (cn_closeRequested c \<or> carries c (formatMessage (app_serverName (w_app w)) ''PING'' [token])) \<and>
    (\<forall>later. later - now < seconds (rt_pingTimeoutSeconds (app_runtime (w_app w))) \<longrightarrow> maintainClient fd later w' = w') \<and>
    (\<forall>prefix params. if params = [token]
       then registry_find (clients (handlePong fd (IrcMessage prefix ''PONG'' params) w')) fd =
              Some (st'\<lparr>cs_awaitingPong := False, cs_pendingPongToken := [], cs_lastPingAt := 0\<rparr>)
       else handlePong fd (IrcMessage prefix ''PONG'' params) w' = w')"
proof -
  from maintain_ping [OF ok st(1,2) idle(1) st(3) idle(2) w' here] obtain token where
    t: "registry_find (clients w') fd = Some (st\<lparr>cs_awaitingPong := True, cs_pendingPongToken := token, cs_lastPingAt := now\<rparr>)"
      "cn_closeRequested c \<or> carries c (formatMessage (app_serverName (w_app w)) ''PING'' [token])"
    and run: "app_runtime (w_app w') = app_runtime (w_app w)" by blast
  have "maintainClient fd later w' = w'" if "later - now < seconds (rt_pingTimeoutSeconds (app_runtime (w_app w)))" for later
    by (rule maintain_silent(1) [OF t(1)]) (use that st(2) idle(1) run in simp_all)
  moreover have "params = [token] \<longleftrightarrow> length params = 1 \<and> params ! 0 = token" for params
    by (cases params) auto
  ultimately show ?thesis using t by (simp add: handlePong_def client_ref_present IrcMessage_def)
qed

text \<open>Alice has been silent for longer than the idle timeout.\<close>

definition silence :: monotonic_time where
  "silence = seconds (rt_idleTimeoutSeconds RuntimeConfig)"

lemma chat_alice:
  "registry_find (clients chat) 4 = Some ((member_state 4 ''alice'')\<lparr>cs_nick := ''alice'', cs_hasNick := True\<rparr>)"
  "app_runtime (w_app chat) = RuntimeConfig"
  by (simp_all add: chat_def find_two_clients)

theorem heartbeat_exchange_witness:
  "\<exists>token st'. registry_find (clients (maintainClient 4 silence chat)) 4 = Some st' \<and> cs_awaitingPong st' \<and>
     cs_pendingPongToken st' = token \<and> maintainClient 4 (silence + 1) (maintainClient 4 silence chat) = maintainClient 4 silence chat"
proof -
  let ?st = "(member_state 4 ''alice'')\<lparr>cs_nick := ''alice'', cs_hasNick := True\<rparr>"
  have st: "cs_registered ?st" "\<not> cs_awaitingPong ?st" "cs_lastActivityAt ?st = 0"
    by (simp_all add: member_state_def ClientState_def)
  have t: "0 < rt_idleTimeoutSeconds (app_runtime (w_app chat))" "1 < seconds (rt_pingTimeoutSeconds (app_runtime (w_app chat)))"
    by (simp_all add: chat_alice RuntimeConfig_def seconds_def)
  have idle: "silence - cs_lastActivityAt ?st \<ge> seconds (rt_idleTimeoutSeconds (app_runtime (w_app chat)))"
    by (simp add: st(3) silence_def chat_alice(2))
  have "om_has (conns (maintainClient 4 silence chat)) 4" by code_simp
  then obtain c where "findConnection (maintainClient 4 silence chat) 4 = Some c" by (auto simp: findConnection_def)
  from heartbeat_exchange [OF chat_ok chat_alice(1) st(1,2) t(1) idle refl this]
  obtain st' where "registry_find (clients (maintainClient 4 silence chat)) 4 = Some st'" "cs_awaitingPong st'"
    and later: "\<forall>later. later - silence < seconds (rt_pingTimeoutSeconds (app_runtime (w_app chat))) \<longrightarrow>
      maintainClient 4 later (maintainClient 4 silence chat) = maintainClient 4 silence chat" by blast
  moreover have "silence + 1 - silence < seconds (rt_pingTimeoutSeconds (app_runtime (w_app chat)))" using t(2) by simp
  ultimately show ?thesis by blast
qed

text \<open>
  C22: A dead client does not stay: if a registered client is idle at one tick and, with nothing from it in between, is maintained again
  at least the ping timeout later, its connection is gone or being closed then.
\<close>

theorem dead_client_dropped:
  assumes ok: "service_ok {} E w" and st: "registry_find (clients w) fd = Some st" "cs_registered st" "\<not> cs_awaitingPong st"
    and idle: "0 < rt_idleTimeoutSeconds (app_runtime (w_app w))"
      "now - cs_lastActivityAt st \<ge> seconds (rt_idleTimeoutSeconds (app_runtime (w_app w)))"
    and later: "later - now \<ge> seconds (rt_pingTimeoutSeconds (app_runtime (w_app w)))"
    and still: "findConnection (maintainClient fd later (maintainClient fd now w)) fd = Some c"
  shows "cn_closeRequested c"
proof -
  let ?w' = "maintainClient fd now w"
  have ok': "service_ok {} E ?w'" by (rule session.beats.maintainClient [OF ok])
  show ?thesis
  proof (cases "findConnection ?w' fd")
    case None
    with connected_iff [OF ok', of fd] have "maintainClient fd later ?w' = ?w'" by (auto simp: maintainClient_def)
    with None still show ?thesis by simp
  next
    case (Some c1)
    from maintain_ping [OF ok st(1,2) idle(1) st(3) idle(2) refl Some] obtain token where
      t: "registry_find (clients ?w') fd = Some (st\<lparr>cs_awaitingPong := True, cs_pendingPongToken := token, cs_lastPingAt := now\<rparr>)"
      and run: "app_runtime (w_app ?w') = app_runtime (w_app w)" by blast
    show ?thesis by (rule maintain_timeout [OF t _ _ _ _ still]) (use st(2) idle(1) later run in simp_all)
  qed
qed

theorem dead_client_dropped_witness:
  "\<exists>c. findConnection (maintainClient 4 (silence + silence) (maintainClient 4 silence chat)) 4 = Some c \<and> cn_closeRequested c"
proof -
  let ?st = "(member_state 4 ''alice'')\<lparr>cs_nick := ''alice'', cs_hasNick := True\<rparr>"
  have st: "cs_registered ?st" "\<not> cs_awaitingPong ?st" "cs_lastActivityAt ?st = 0"
    by (simp_all add: member_state_def ClientState_def)
  have t: "0 < rt_idleTimeoutSeconds (app_runtime (w_app chat))"
    "silence - cs_lastActivityAt ?st \<ge> seconds (rt_idleTimeoutSeconds (app_runtime (w_app chat)))"
    "silence + silence - silence \<ge> seconds (rt_pingTimeoutSeconds (app_runtime (w_app chat)))"
    by (simp_all add: chat_alice RuntimeConfig_def st(3) silence_def seconds_def)
  have "om_has (conns (maintainClient 4 (silence + silence) (maintainClient 4 silence chat))) 4" by code_simp
  then obtain c where "findConnection (maintainClient 4 (silence + silence) (maintainClient 4 silence chat)) 4 = Some c"
    by (auto simp: findConnection_def)
  with dead_client_dropped [OF chat_ok chat_alice(1) st(1,2) t this] show ?thesis by blast
qed

section \<open>Deviations\<close>

text \<open>
  NOTICE is not a command of this server, although the report of the repository lists it: a registered
  client that sends one gets 421.
\<close>

lemma notice_unknown:
  assumes "registry_find (clients w) fd = Some st" and "cs_registered st" and "msg_command m = ''NOTICE''"
  shows "handleMessage fd m w = snd (sendNumeric fd 421 [''NOTICE''] ''Unknown command'' w)"
  using assms by (simp add: handleMessage_def client_ref_present)

text \<open>
  \<open>handlePrivmsg\<close> goes on with the next target after a failed reply has cost the sender its connection.
  Alice's queue has room for nothing: the 404 for the unknown channel disconnects her, and Bob still gets her
  message, under the name of the server.
\<close>

definition choked_chat :: world where
  "choked_chat = set_conns (om_put 4 (Connection 4 ''127.0.0.1:5004'' 512 4) (conns chat)) chat"

lemma privmsg_after_loss:
  "(case findConnection (handlePrivmsg 4 (IrcMessage [] ''PRIVMSG'' [''#none,bob'', ''hi'']) choked_chat) 5 of
      None \<Rightarrow> False
    | Some c \<Rightarrow> pending_text c = '':alice!alice@127.0.0.1 QUIT :outbound queue limit exceeded'' @ crlf @
        '':irc.relay.local PRIVMSG bob hi'' @ crlf)"
  by code_simp

text \<open>
  \<open>maintainClient\<close> does not notice that a connection is closing already: while the farewell is still
  pending, the next tick counts the same timeout and queues the farewell once more.
\<close>

lemma timeout_repeated:
  "let w1 = maintainClient 4 silence chat; w2 = maintainClient 4 (silence + silence) w1;
       w3 = maintainClient 4 (silence + silence) w2
   in idleTimeouts (app_metrics (w_app w2)) = 1 \<and> idleTimeouts (app_metrics (w_app w3)) = 2"
  by code_simp

end
