(* ===== verification/Bookkeeping.thy ===== *)
theory Bookkeeping
  imports Lifecycle
begin

text \<open>
  Two further invariants of the running program that tie the components together: what the epoll backend
  believes is registered is what the kernel has acknowledged, and the command windows of all clients are in
  chronological order.  Both are side conditions of the event loop in the sense of \<open>Server_Invariant\<close>.
\<close>

section \<open>The conditions\<close>

definition wired :: "world \<Rightarrow> bool" where
  "wired w \<longleftrightarrow> (\<forall>im. srv_eventManager (w_server w) = Some (EpollEventManager im) \<longrightarrow> epoll_consistent im (os_ctl (w_os w)))"

definition chronological :: "monotonic_time \<Rightarrow> monotonic_time list \<Rightarrow> bool" where
  "chronological now ts \<longleftrightarrow> sorted ts \<and> (\<forall>t \<in> set ts. t \<le> now)"

definition timed :: "world \<Rightarrow> bool" where
  "timed w \<longleftrightarrow> (\<forall>fd st. registry_find (clients w) fd = Some st \<longrightarrow> chronological (os_now (w_os w)) (cs_commandWindow st))"

definition orderly :: "world \<Rightarrow> bool" where
  "orderly w \<longleftrightarrow> wired w \<and> timed w"

lemma chronological_later: "chronological now ts \<Longrightarrow> now \<le> now' \<Longrightarrow> chronological now' ts"
  by (auto simp: chronological_def)

lemma chronological_step: "chronological now ts \<Longrightarrow> window_step now ts ts' \<Longrightarrow> chronological now ts'"
  by (auto simp: chronological_def window_step_def sorted_append dest!: in_set_dropD intro: sorted_wrt_drop)

lemma wired_manager:
  assumes "wired w" and "srv_eventManager (w_server w) = Some em"
    and "em_updateFd s em (os_ctl (w_os w)) fd i = (r, em', k') \<or> em_removeFd s em (os_ctl (w_os w)) fd = (r, em', k') \<or>
      em_addFd s em (os_ctl (w_os w)) fd i = (r, em', k')"
  shows "wired (set_manager em' k' w)"
proof (cases em)
  case (EpollEventManager im)
  with assms(1,2) have "epoll_consistent im (os_ctl (w_os w))" by (simp add: wired_def)
  note ops = epoll_consistent_ops [OF this]
  from assms(3) obtain im' where "em' = EpollEventManager im'" "epoll_consistent im' k'"
    unfolding EpollEventManager by (elim disjE) (auto split: prod.splits dest: ops)
  then show ?thesis by (simp add: wired_def set_manager_def)
next
  case (KqueueEventManager im)
  with assms(3) obtain im' where "em' = KqueueEventManager im'" by (auto split: prod.splits)
  then show ?thesis by (simp add: wired_def set_manager_def)
qed

lemma timed_manager [simp]: "timed (set_manager em k w) = timed w"
  by (simp add: timed_def set_manager_def)

lemma orderly_calls:
  assumes "orderly w" and "srv_eventManager (w_server w) = Some em"
  shows "updateFd_call em fd i w = (r, w') \<Longrightarrow> orderly w'" and "removeFd_call em fd w = (r, w') \<Longrightarrow> orderly w'"
    and "addFd_call em fd i w = (r, w') \<Longrightarrow> orderly w'"
  using assms(1) wired_manager [OF _ assms(2), where s = "strerror_of w" and r = r and fd = fd and i = i]
  by (auto simp: orderly_def updateFd_call_def removeFd_call_def addFd_call_def split: prod.splits)

interpretation ord: side_condition orderly
proof
  fix w w' em fd i r st st'
  assume J: "orderly w"
  show "orderly w'" if "calm w w'"
  proof -
    from J that have "wired w'" by (simp add: orderly_def wired_def calm_def epoll_consistent_def)
    moreover have "chronological (os_now (w_os w')) (cs_commandWindow s)" if s: "registry_find (clients w') g = Some s" for g s
    proof (cases "cs_commandWindow s = []")
      case False
      with \<open>calm w w'\<close> s obtain s0 where "registry_find (clients w) g = Some s0" "cs_commandWindow s = cs_commandWindow s0"
        by (auto simp: calm_def)
      with J have "chronological (os_now (w_os w)) (cs_commandWindow s)" by (simp add: orderly_def timed_def)
      then show ?thesis by (rule chronological_later) (use \<open>calm w w'\<close> in \<open>simp add: calm_def\<close>)
    qed (simp add: chronological_def)
    ultimately show ?thesis by (simp add: orderly_def timed_def)
  qed
  show "srv_eventManager (w_server w) = Some em \<Longrightarrow> updateFd_call em fd i w = (r, w') \<Longrightarrow> orderly w'"
    "srv_eventManager (w_server w) = Some em \<Longrightarrow> removeFd_call em fd w = (r, w') \<Longrightarrow> orderly w'"
    "srv_eventManager (w_server w) = Some em \<Longrightarrow> addFd_call em fd i w = (r, w') \<Longrightarrow> orderly w'"
    using orderly_calls [OF J] by blast+
  show "orderly (put_client fd st' w)" if "registry_find (clients w) fd = Some st"
    "window_step (os_now (w_os w)) (cs_commandWindow st) (cs_commandWindow st')"
    using J that by (auto simp: orderly_def wired_def timed_def put_client_def find_set intro: chronological_step)
qed

interpretation ord: poll_condition orderly
  by unfold_locales (simp add: orderly_def wired_def timed_def next_wait_def)

section \<open>The start\<close>

lemma createListenSocket_log:
  assumes "createListenSocket w = (r, w')"
  shows "ck_log (os_ctl (w_os w')) = ck_log (os_ctl (w_os w))" and "os_waits (w_os w') = os_waits (w_os w)"
proof -
  let ?port = "cfg_port (srv_config (w_server w))"
  obtain r1 w1 where o1: "config_calls (listenOptions (os_platform (w_os w))) w = (r1, w1)" by fastforce
  obtain r2 w2 where o2: "config_calls (bindCalls ?port) w1 = (r2, w2)" by fastforce
  have "undisturbed w w1" "undisturbed w1 w2" using o1 o2 by (auto intro: config_calls_undisturbed)
  with assms show "ck_log (os_ctl (w_os w')) = ck_log (os_ctl (w_os w))" "os_waits (w_os w') = os_waits (w_os w)"
    unfolding createListenSocket_def Let_def o1
    by (cases r1; cases r2; auto simp: o2 undisturbed_def close_call_def split: sum.splits if_splits)+
qed

lemma started_orderly:
  assumes log: "ck_log (os_ctl os) = []" and m: "main_setup argv os = Inr w0" and s: "start w0 = (None, w)"
  shows "orderly w"
proof -
  have w0: "w_os w0 = os" "clients w0 = ClientRegistry" "\<not> srv_running (w_server w0)" "srv_eventManager (w_server w0) = None"
    using m by (auto simp: main_setup_def handler_defs Server_def IrcApplication_def split: if_splits sum.splits)
  from s w0(3,4) obtain em wa where c: "createDefault w0 = (Inr em, wa)" and l: "listen_with em wa = (None, w)"
    by (auto simp: start_def split: option.splits sum.splits prod.splits)
  have wa: "w_app wa = w_app w0" "ck_log (os_ctl (w_os wa)) = []" "em_interests em = om_empty"
    using c log w0(1) by (auto simp: createDefault_defs split: platform.splits prod.splits option.splits)
  let ?wa = "wa\<lparr>w_server := (w_server wa)\<lparr>srv_eventManager := Some em\<rparr>\<rparr>"
  from l obtain w1 w2 where k: "createListenSocket ?wa = (None, w1)"
    and a: "addFd_call em (srv_listenFd (w_server w1)) ReadInterest w1 = (None, w2)"
    and w: "w = w2\<lparr>w_server := (w_server w2)\<lparr>srv_stopRequested := False, srv_running := True\<rparr>\<rparr>"
    by (auto simp: listen_with_def Let_def split: prod.splits option.splits)
  note f = createListenSocket_frame [OF k]
  have "ck_log (os_ctl (w_os w1)) = []" using createListenSocket_log(1) [OF k] wa(2) by simp
  then have "wired w1" using f(4) wa(3) by (auto simp: wired_def epoll_consistent_def)
  moreover have "timed w1" using f(2) wa(1) w0(2) by (simp add: timed_def registry_find_def ClientRegistry_def)
  ultimately have "orderly w2" using ord.addition [OF _ _ a] f(4) by (simp add: orderly_def)
  then show ?thesis by (rule ord.calm) (simp add: calm_def w)
qed

section \<open>The running program\<close>

fun orderly_phase :: "phase \<times> world \<Rightarrow> bool" where
  "orderly_phase (Serving, w) \<longleftrightarrow> orderly w"
| "orderly_phase (Draining n, w) \<longleftrightarrow> orderly w"
| "orderly_phase (_, w) \<longleftrightarrow> True"

lemma watched_start: "service_ok {} {} w \<Longrightarrow> orderly w \<Longrightarrow> ord.watched (w_server w) {} {} w"
  by (simp add: steady_def)

lemma main_step_orderly: "main_step s s' \<Longrightarrow> main_ok s \<Longrightarrow> orderly_phase s \<Longrightarrow> orderly_phase s'"
proof (induction rule: main_step.induct)
  case (kernel p w os)
  then have "calm w (w\<lparr>w_os := os\<rparr>)" by (auto simp: calm_def same_history_def)
  with kernel show ?case by (auto intro: ord.calm)
next
  case (serve w w1)
  then have "ord.watched (w_server w) {} {} w" by (intro watched_start) simp_all
  from ord.rounds.onTick [OF ord.pollOnce [OF this, of "- 1"]] serve show ?case by simp
next
  case (interrupt w)
  then have "ord.watched (w_server w) {} {} w" by (intro watched_start) simp_all
  from ord.rounds.shutdown [OF this] show ?case by simp
next
  case (drain w w1 n)
  then have "ord.watched (w_server w) {} {} w" by (intro watched_start) simp_all
  from ord.pollOnce [OF this, of 50] drain show ?case by simp
qed simp_all

lemma reachable_orderly: "reachable s \<Longrightarrow> orderly_phase s"
proof (induction rule: reachable.induct)
  case (started os argv w0 w)
  from ord.calm [OF started_orderly [OF started(1,3,4)]] show ?case by (simp add: announce_def calm_def)
next
  case (step s s')
  with reachable_ok main_step_orderly show ?case by blast
qed

end
