(* ===== verification/Waiting.thy ===== *)
theory Waiting
  imports Bookkeeping
begin

text \<open>
  How long the program sleeps.  Every wait call is on record in the state of the operating system, and no other
  step of the program adds one: the record of a round grows by one call, whose limit is the timeout
  that \<open>pollOnce\<close> was given, or that of the configuration.
\<close>

section \<open>One wait per round\<close>

interpretation quiet: side_condition "\<lambda>w. os_waits (w_os w) = ws" for ws
proof
  fix w w' :: world and em fd i r st st'
  assume J: "os_waits (w_os w) = ws"
  show "os_waits (w_os w') = ws" if "calm w w'" using J that by (simp add: calm_def)
  show "srv_eventManager (w_server w) = Some em \<Longrightarrow> updateFd_call em fd i w = (r, w') \<Longrightarrow> os_waits (w_os w') = ws"
    "srv_eventManager (w_server w) = Some em \<Longrightarrow> removeFd_call em fd w = (r, w') \<Longrightarrow> os_waits (w_os w') = ws"
    "srv_eventManager (w_server w) = Some em \<Longrightarrow> addFd_call em fd i w = (r, w') \<Longrightarrow> os_waits (w_os w') = ws"
    using J by (auto simp: updateFd_call_def removeFd_call_def addFd_call_def set_manager_def split: prod.splits)
qed (simp add: put_client_def)

abbreviation pause_of :: "world \<Rightarrow> int" where
  "pause_of w \<equiv> cfg_eventTimeoutMs (srv_config (w_server w))"

lemma pollOnce_waits:
  assumes ok: "service_ok {} {} w" and run: "srv_running (w_server w)"
    and limit: "0 \<le> effectiveTimeout (srv_config (w_server w)) t"
  shows "pause_of (snd (pollOnce t w)) = pause_of w"
    and "\<exists>call. os_waits (w_os (snd (pollOnce t w))) = os_waits (w_os w) @ [call] \<and>
      wait_limit call = Some (effectiveTimeout (srv_config (w_server w)) t * 1000000)"
proof -
  from ok run obtain em where em: "srv_eventManager (w_server w) = Some em" by (auto simp: service_ok_def server_ok_def)
  let ?call = "em_wait_call em (effectiveTimeout (srv_config (w_server w)) t)"
  obtain a w1 where n: "next_wait ?call w = (a, w1)" by fastforce
  have s: "steady (w_server w) {} {} w" using ok by (simp add: steady_def)
  from steady_pollOnce [OF s] show "pause_of (snd (pollOnce t w)) = pause_of w" by (simp add: steady_def same_setup_def)
  have "quiet.watched (os_waits (w_os w) @ [?call]) (w_server w) {} {} w1"
    using n s by (auto simp: next_wait_def steady_os)
  from quiet.eventLoop [OF this run UNIV_I] this have "os_waits (w_os (snd (pollOnce t w))) = os_waits (w_os w) @ [?call]"
    using em n run by (auto simp: pollOnce_def split: sum.splits)
  with wait_limit_call [OF limit] show "\<exists>call. os_waits (w_os (snd (pollOnce t w))) = os_waits (w_os w) @ [call] \<and>
      wait_limit call = Some (effectiveTimeout (srv_config (w_server w)) t * 1000000)" by blast
qed

lemma background_waits:
  assumes "service_ok {} {} w"
  shows "os_waits (w_os (onTick w)) = os_waits (w_os w)" and "pause_of (onTick w) = pause_of w"
    and "os_waits (w_os (shutdown r w)) = os_waits (w_os w)" and "pause_of (shutdown r w) = pause_of w"
proof -
  have s: "quiet.watched (os_waits (w_os w)) (w_server w) {} {} w" using assms by (simp add: steady_def)
  show "os_waits (w_os (onTick w)) = os_waits (w_os w)" "pause_of (onTick w) = pause_of w"
    using quiet.rounds.onTick [OF s] by (simp_all add: steady_def same_setup_def)
  show "os_waits (w_os (shutdown r w)) = os_waits (w_os w)" "pause_of (shutdown r w) = pause_of w"
    using quiet.rounds.shutdown [OF s, of r] by (simp_all add: steady_def same_setup_def)
qed

section \<open>The destructor does not wait\<close>

lemma closeAll_waits: "quiet.watched ws s0 R E w \<Longrightarrow> quiet.watched ws s0 R E (closeAllConnections fds w)" for ws
proof (induction fds arbitrary: w)
  case (Cons fd fds)
  from Cons.IH [OF quiet.watching.disconnect_keeps [OF Cons.prems]] show ?case by (simp add: closeAllConnections_def)
qed (simp add: closeAllConnections_def)

lemma silent_waits:
  "\<not> srv_onDisconnect (w_server w) \<Longrightarrow> os_waits (w_os (closeAllConnections fds w)) = os_waits (w_os w)"
proof (induction fds arbitrary: w)
  case (Cons fd fds)
  have "os_waits (w_os (detach fd w)) = os_waits (w_os w)"
    by (auto simp: detach_def Let_def removeFd_call_def set_manager_def split: option.splits prod.splits)
  then have "os_waits (w_os (disconnect fd r w)) = os_waits (w_os w)" for r
    using Cons.prems detach_effect(3) [where fd = fd and w = w]
    by (auto simp: disconnect.simps Let_def same_setup_def closeFd_def split: option.splits)
  with Cons disconnect_silent(2) [OF Cons.prems] show ?case by (simp add: closeAllConnections_def)
qed (simp add: closeAllConnections_def)

lemma destroy_waits:
  assumes "service_ok R E w \<or> \<not> srv_onDisconnect (w_server w)"
  shows "os_waits (w_os (Server_destroy fds w)) = os_waits (w_os w)"
proof -
  have "os_waits (w_os (closeListenSocket v)) = os_waits (w_os v)" for v
    by (auto simp: closeListenSocket_def Let_def close_call_def removeFd_call_def set_manager_def
        split: option.splits prod.splits)
  moreover have "os_waits (w_os (closeAllConnections fds (stop w))) = os_waits (w_os w)"
  proof -
    have o: "w_os (stop w) = w_os w" "srv_onDisconnect (w_server (stop w)) = srv_onDisconnect (w_server w)" by (simp_all add: stop_def)
    show ?thesis
      using assms closeAll_waits [of "w_server (stop w)" R E "stop w" "os_waits (w_os w)" fds] silent_waits [of "stop w" fds]
        service_stop [of R E w] by (auto simp: steady_def o)
  qed
  ultimately show ?thesis by (simp add: Server_destroy_def)
qed

section \<open>The start\<close>

lemma parsed_pause: "parseOptions argv cfg = Inr (runtime, cfg') \<Longrightarrow> cfg_eventTimeoutMs cfg' = cfg_eventTimeoutMs cfg"
  using parseOptionList_config [of "drop 3 argv" "(RuntimeConfig, cfg)" "(runtime, cfg')"]
  by (auto simp: parseOptions_def only_limits_differ_def)

lemma started_waits:
  assumes o: "os_waits os = []" and m: "main_setup argv os = Inr w0" and s: "start w0 = (None, w)"
  shows "os_waits (w_os w) = []" and "pause_of w = 1000"
proof -
  have w0: "w_os w0 = os" "pause_of w0 = 1000" "\<not> srv_running (w_server w0)" "srv_eventManager (w_server w0) = None"
    using m by (auto simp: main_setup_def handler_defs Server_def ServerConfig_def split: if_splits sum.splits dest: parsed_pause)
  from s w0(3,4) obtain em wa where c: "createDefault w0 = (Inr em, wa)" and l: "listen_with em wa = (None, w)"
    by (auto simp: start_def split: option.splits sum.splits prod.splits)
  have wa: "os_waits (w_os wa) = []" "pause_of wa = 1000"
    using c o w0(1,2) by (auto simp: createDefault_defs split: platform.splits prod.splits option.splits)
  let ?wa = "wa\<lparr>w_server := (w_server wa)\<lparr>srv_eventManager := Some em\<rparr>\<rparr>"
  from l obtain w1 w2 where k: "createListenSocket ?wa = (None, w1)"
    and a: "addFd_call em (srv_listenFd (w_server w1)) ReadInterest w1 = (None, w2)"
    and w: "w = w2\<lparr>w_server := (w_server w2)\<lparr>srv_stopRequested := False, srv_running := True\<rparr>\<rparr>"
    by (auto simp: listen_with_def Let_def split: prod.splits option.splits)
  have "pause_of w1 = pause_of ?wa"
    using k unfolding createListenSocket_def Let_def
    by (auto simp: close_call_def split: sum.splits if_splits prod.splits option.splits)
  with createListenSocket_log(2) [OF k] a w wa show "os_waits (w_os w) = []" "pause_of w = 1000"
    by (auto simp: addFd_call_def set_manager_def split: prod.splits)
qed

section \<open>The running program\<close>

text \<open>While it serves the program sleeps a second at most; each round of the drain phase sleeps at most 50 ms.\<close>

definition second :: int where "second = 1000000000"

definition waits_of :: "wait_call list \<Rightarrow> nat \<Rightarrow> bool" where
  "waits_of ws n \<longleftrightarrow> (\<exists>serving draining. ws = serving @ draining \<and> length draining = n \<and>
     (\<forall>c \<in> set serving. wait_limit c = Some second) \<and> (\<forall>c \<in> set draining. wait_limit c = Some (50 * 1000000)))"

fun waits_phase :: "phase \<times> world \<Rightarrow> bool" where
  "waits_phase (Serving, w) \<longleftrightarrow> pause_of w = 1000 \<and> waits_of (os_waits (w_os w)) 0"
| "waits_phase (Draining n, w) \<longleftrightarrow> waits_of (os_waits (w_os w)) (8 - n)"
| "waits_phase (_, w) \<longleftrightarrow> (\<exists>n \<le> 8. waits_of (os_waits (w_os w)) n)"

lemma waits_of_serve: "waits_of ws 0 \<Longrightarrow> wait_limit c = Some second \<Longrightarrow> waits_of (ws @ [c]) 0"
  by (auto simp: waits_of_def)

lemma waits_of_drain:
  assumes "waits_of ws n" and "wait_limit c = Some (50 * 1000000)"
  shows "waits_of (ws @ [c]) (Suc n)"
proof -
  from assms obtain xs ys where "ws @ [c] = xs @ (ys @ [c])" "length (ys @ [c]) = Suc n"
    "\<forall>c \<in> set xs. wait_limit c = Some second" "\<forall>c \<in> set (ys @ [c]). wait_limit c = Some (50 * 1000000)"
    by (auto simp: waits_of_def)
  then show ?thesis unfolding waits_of_def by blast
qed

lemma drain_waits:
  assumes "service_ok {} {} w" and "pollOnce 50 w = (r, w1)" and "n \<le> 7" and "waits_of (os_waits (w_os w)) (8 - Suc n)"
  shows "if srv_running (w_server w) then waits_of (os_waits (w_os w1)) (8 - n) else w1 = w"
proof (cases "srv_running (w_server w)")
  case True
  have "0 \<le> effectiveTimeout (srv_config (w_server w)) 50" by (simp add: effectiveTimeout_def)
  from pollOnce_waits(2) [OF assms(1) True this] assms(2) obtain c where
    "os_waits (w_os w1) = os_waits (w_os w) @ [c]" "wait_limit c = Some (50 * 1000000)"
    by (auto simp: effectiveTimeout_def)
  with True assms(3) waits_of_drain [OF assms(4), of c] show ?thesis by (simp add: Suc_diff_le [symmetric])
qed (use assms(2) in \<open>simp add: pollOnce_def\<close>)

lemma main_step_waits: "main_step s s' \<Longrightarrow> main_ok s \<Longrightarrow> waits_phase s \<Longrightarrow> waits_phase s'"
proof (induction rule: main_step.induct)
  case (kernel p w os)
  then show ?case by (auto simp: same_history_def)
next
  case (serve w w1)
  then have ok: "service_ok {} {} w" by simp
  have ok1: "service_ok {} {} w1" using service_pollOnce(1) [OF ok, of "- 1"] serve by simp
  have "0 \<le> effectiveTimeout (srv_config (w_server w)) (- 1)" using serve by (simp add: effectiveTimeout_def)
  from pollOnce_waits [OF ok serve(1) this] serve background_waits [OF ok1] show ?case
    by (auto simp: effectiveTimeout_def second_def waits_of_serve)
next
  case (interrupt w)
  then show ?case using background_waits(3) [of w] by simp
next
  case (drain w w1 n)
  then show ?case
    using drain_waits [of w None w1 n] by (cases "srv_running (w_server w)") (simp_all add: pollOnce_def)
next
  case (finish n w fds)
  have "os_waits (w_os (Server_destroy fds (stop (clearHandlers w)))) = os_waits (w_os w)"
    by (subst destroy_waits) (simp_all add: stop_def clearHandlers_def handler_defs)
  with finish show ?case by (auto intro: exI [of _ "8 - n"])
next
  case (serve_throws w e w1 fds)
  then have ok: "service_ok {} {} w" by simp
  have "service_ok {} {} w1" using service_pollOnce(1) [OF ok, of "- 1"] serve_throws by simp
  then have "os_waits (w_os (Server_destroy fds w1)) = os_waits (w_os w1)" by (blast intro: destroy_waits)
  moreover have "0 \<le> effectiveTimeout (srv_config (w_server w)) (- 1)" using serve_throws by (simp add: effectiveTimeout_def)
  from pollOnce_waits(2) [OF ok serve_throws(1) this] serve_throws have "waits_of (os_waits (w_os w1)) 0"
    by (auto simp: effectiveTimeout_def second_def waits_of_serve)
  ultimately show ?case by auto
next
  case (drain_throws w e w1 fds n)
  then have ok: "service_ok {} {} w" by simp
  have "service_ok {} {} w1" using service_pollOnce(1) [OF ok, of 50] drain_throws by simp
  then have "os_waits (w_os (Server_destroy fds w1)) = os_waits (w_os w1)" by (blast intro: destroy_waits)
  moreover have "\<exists>k \<le> 8. waits_of (os_waits (w_os w1)) k"
  proof (cases "srv_running (w_server w)")
    case True
    then have "waits_of (os_waits (w_os w1)) (8 - n)" using drain_waits [OF ok drain_throws(2), of n] drain_throws by simp
    then show ?thesis by (meson diff_le_self)
  qed (use drain_throws in \<open>auto simp: pollOnce_def intro: exI [of _ "7 - n"]\<close>)
  ultimately show ?case by simp
qed

lemma reachable_waits_phase: "reachable s \<Longrightarrow> waits_phase s"
proof (induction rule: reachable.induct)
  case (started os argv w0 w)
  then show ?case using started_waits [of os argv w0 w] by (simp add: announce_def logEvent_def waits_of_def)
next
  case (step s s')
  with reachable_ok main_step_waits show ?case by blast
qed

end
