(* ===== verification/Authority.thy ===== *)
theory Authority
  imports Policy
begin

text \<open>
  What a client that is not an operator of a channel can do to it, whatever line it sends.  The handlers are
  walked through once in the locale \<open>channel_invariant\<close>; here it is instantiated with the state of one
  channel before the line and with an authority that excludes this channel.
\<close>

section \<open>Modes, topic and invitations under the operations of a channel\<close>

lemma channel_flags [simp]:
  "ch_inviteOnly (addMember ch i b) = ch_inviteOnly ch" "ch_topicProtected (addMember ch i b) = ch_topicProtected ch"
  "ch_inviteOnly (removeMember ch i) = ch_inviteOnly ch" "ch_topicProtected (removeMember ch i) = ch_topicProtected ch"
  "ch_inviteOnly (clearInvite ch x) = ch_inviteOnly ch" "ch_topicProtected (clearInvite ch x) = ch_topicProtected ch"
  "ch_inviteOnly (invite ch x) = ch_inviteOnly ch" "ch_topicProtected (invite ch x) = ch_topicProtected ch"
  "ch_inviteOnly (setTopic ch t) = ch_inviteOnly ch" "ch_topicProtected (setTopic ch t) = ch_topicProtected ch"
  by (simp_all add: channel_defs Let_def)

lemma channel_topic [simp]:
  "ch_topic (addMember ch i b) = ch_topic ch" "ch_hasTopic (addMember ch i b) = ch_hasTopic ch"
  "ch_topic (removeMember ch i) = ch_topic ch" "ch_hasTopic (removeMember ch i) = ch_hasTopic ch"
  "ch_topic (clearInvite ch x) = ch_topic ch" "ch_hasTopic (clearInvite ch x) = ch_hasTopic ch"
  "ch_topic (invite ch x) = ch_topic ch" "ch_hasTopic (invite ch x) = ch_hasTopic ch"
  by (simp_all add: channel_defs Let_def)

lemma channel_invited [simp]:
  "isInvited (addMember ch i b) = isInvited ch" "isInvited (removeMember ch i) = isInvited ch"
  "isInvited (setTopic ch t) = isInvited ch"
  by (simp_all add: fun_eq_iff channel_defs Let_def)

lemma isInvited_clear: "isInvited (clearInvite ch y) x \<Longrightarrow> isInvited ch x"
  by (simp add: isInvited_def clearInvite_def split: if_splits)

section \<open>The state of a channel that is out of reach\<close>

text \<open>
  The channel \<open>ch'\<close> is \<open>ch\<close> without the members that are gone; only the actor may have come or left, and what
  the modes leave open to every member may have changed.
\<close>

definition untouched :: "channel \<Rightarrow> fd \<Rightarrow> bool \<Rightarrow> (fd \<Rightarrow> bool) \<Rightarrow> channel \<Rightarrow> bool" where
  "untouched ch actor admitted present ch' \<longleftrightarrow>
     (\<forall>m. m \<noteq> actor \<longrightarrow> hasMember ch' m = (hasMember ch m \<and> present m)) \<and>
     (\<forall>m. isOperator ch' m = (isOperator ch m \<and> present m)) \<and>
     ch_inviteOnly ch' = ch_inviteOnly ch \<and> ch_topicProtected ch' = ch_topicProtected ch \<and>
     (ch_topicProtected ch \<longrightarrow> ch_topic ch' = ch_topic ch \<and> ch_hasTopic ch' = ch_hasTopic ch) \<and>
     (ch_inviteOnly ch \<longrightarrow> (\<forall>x. isInvited ch' x \<longrightarrow> isInvited ch x)) \<and>
     (hasMember ch' actor \<longrightarrow> hasMember ch actor \<or> admitted)"

definition protected_room :: "string \<Rightarrow> channel \<Rightarrow> fd \<Rightarrow> bool \<Rightarrow> irc_application \<Rightarrow> bool" where
  "protected_room n ch actor admitted a \<longleftrightarrow>
     (\<exists>p. p \<noteq> actor \<and> hasMember ch p \<and> registry_find (app_clients a) p \<noteq> None) \<longrightarrow>
     (\<exists>ch'. om_get (app_channels a) n = Some ch' \<and> channel_wf ch' \<and>
        untouched ch actor admitted (\<lambda>m. registry_find (app_clients a) m \<noteq> None) ch')"

text \<open>While another member is left the channel exists and is not empty, so a change has a state to start from.\<close>

lemma protected_roomD:
  assumes "protected_room n ch actor admitted a" and "p \<noteq> actor" "hasMember ch p" "registry_find (app_clients a) p \<noteq> None"
  obtains ch1 where "om_get (app_channels a) n = Some ch1" and "channel_wf ch1" and "hasMember ch1 p"
    and "untouched ch actor admitted (\<lambda>m. registry_find (app_clients a) m \<noteq> None) ch1"
  using assms unfolding protected_room_def by (auto simp: untouched_def)

lemma protected_change:
  assumes a: "protected_room n ch actor admitted a" and "app_clients a' = app_clients a"
    and step: "\<And>ch1 p present. om_get (app_channels a) n = Some ch1 \<Longrightarrow> channel_wf ch1 \<Longrightarrow>
      untouched ch actor admitted present ch1 \<Longrightarrow> p \<noteq> actor \<Longrightarrow> hasMember ch1 p \<Longrightarrow>
      \<exists>ch2. om_get (app_channels a') n = Some ch2 \<and> channel_wf ch2 \<and> untouched ch actor admitted present ch2"
  shows "protected_room n ch actor admitted a'"
  unfolding protected_room_def assms(2)
proof
  assume "\<exists>p. p \<noteq> actor \<and> hasMember ch p \<and> registry_find (app_clients a) p \<noteq> None"
  then obtain p where p: "p \<noteq> actor" "hasMember ch p" "registry_find (app_clients a) p \<noteq> None" by blast
  from protected_roomD [OF a p] obtain ch1 where "om_get (app_channels a) n = Some ch1" "channel_wf ch1" "hasMember ch1 p"
    "untouched ch actor admitted (\<lambda>m. registry_find (app_clients a) m \<noteq> None) ch1" .
  from step [OF this(1,2,4) p(1) this(3)]
  show "\<exists>ch'. om_get (app_channels a') n = Some ch' \<and> channel_wf ch' \<and>
      untouched ch actor admitted (\<lambda>m. registry_find (app_clients a) m \<noteq> None) ch'" .
qed

lemma protected_elsewhere:
  assumes "protected_room n ch actor admitted a" and "app_clients a' = app_clients a"
    and "om_get (app_channels a') n = om_get (app_channels a) n"
  shows "protected_room n ch actor admitted a'"
  using assms(1,2) by (rule protected_change) (simp add: assms(3))

lemma protected_purge:
  assumes a: "protected_room n ch actor admitted (w_app w)"
  shows "protected_room n ch actor admitted (w_app (purge fd w))"
  unfolding protected_room_def
proof
  assume "\<exists>p. p \<noteq> actor \<and> hasMember ch p \<and> registry_find (clients (purge fd w)) p \<noteq> None"
  then obtain p where p: "p \<noteq> actor" "hasMember ch p" "registry_find (clients w) p \<noteq> None" and "p \<noteq> fd"
    by (auto simp: find_erase split: if_splits)
  from protected_roomD [OF a p] obtain ch1 where ch1: "om_get (channels w) n = Some ch1" "channel_wf ch1" "hasMember ch1 p"
    "untouched ch actor admitted (\<lambda>m. registry_find (clients w) m \<noteq> None) ch1" .
  have "\<not> Channel_empty (removeMember ch1 fd)" using ch1(3) \<open>p \<noteq> fd\<close> by (auto simp: Channel_empty_iff)
  then have "om_get (channels (purge fd w)) n = Some (if hasMember ch1 fd then removeMember ch1 fd else ch1)"
    by (simp add: channels_purge ch1(1))
  moreover have "untouched ch actor admitted (\<lambda>m. registry_find (clients (purge fd w)) m \<noteq> None)
      (if hasMember ch1 fd then removeMember ch1 fd else ch1)"
    using ch1(2,4) by (auto simp: untouched_def find_erase channel_wf_def)
  ultimately show "\<exists>ch'. om_get (channels (purge fd w)) n = Some ch' \<and> channel_wf ch' \<and>
      untouched ch actor admitted (\<lambda>m. registry_find (clients (purge fd w)) m \<noteq> None) ch'"
    using ch1(2) by simp
qed

section \<open>Every command keeps it\<close>

definition named :: "fd \<Rightarrow> string \<Rightarrow> irc_application \<Rightarrow> bool" where
  "named fd nick a \<longleftrightarrow> (\<forall>st. registry_find (app_clients a) fd = Some st \<longrightarrow> cs_nick st = nick)"

text \<open>Whether the channel admits the client.\<close>

definition admits :: "channel \<Rightarrow> string \<Rightarrow> bool" where
  "admits ch nick \<longleftrightarrow> (ch_inviteOnly ch \<longrightarrow> isInvited ch nick)"

interpretation closed: counter_predicate "protected_room n ch actor admitted" for n ch actor admitted
  by unfold_locales (auto intro: protected_purge protected_elsewhere)

interpretation named_room:
  counter_predicate "\<lambda>a. \<not> isOperator ch actor \<and> named actor nick a \<and> protected_room n ch actor (admits ch nick) a"
  for n ch actor nick
  by unfold_locales
     (auto intro: protected_purge protected_elsewhere simp: named_def find_erase split: if_splits)

lemma protected_put:
  assumes "protected_room n ch actor admitted (w_app w)" and "om_get (channels w) k = Some ch1"
    and "\<And>present. k = n \<Longrightarrow> untouched ch actor admitted present ch1 \<Longrightarrow> untouched ch actor admitted present ch2"
    and "channel_wf ch1 \<Longrightarrow> channel_wf ch2"
  shows "protected_room n ch actor admitted (w_app (set_channels (om_put k ch2 (channels w)) w))"
  using assms(1) by (rule protected_change) (use assms(2-) in auto)

lemma protected_drop:
  assumes "protected_room n ch actor admitted (w_app w)" and "\<not> isOperator ch actor" and "k \<noteq> n \<or> x = actor"
  shows "protected_room n ch actor admitted (w_app (dropMember k x w))"
  using assms(1)
proof (rule protected_change)
  show "app_clients (w_app (dropMember k x w)) = clients w" by (simp add: dropMember_eq split: option.splits)
  fix ch1 p present
  assume ch1: "om_get (channels w) n = Some ch1" "channel_wf ch1" "untouched ch actor admitted present ch1" "p \<noteq> actor" "hasMember ch1 p"
  have "untouched ch actor admitted present (removeMember ch1 actor)"
    using ch1(3) assms(2) by (auto simp: untouched_def)
  moreover have "\<not> Channel_empty (removeMember ch1 actor)" using ch1(4,5) by (auto simp: Channel_empty_iff)
  ultimately show "\<exists>ch2. om_get (channels (dropMember k x w)) n = Some ch2 \<and> channel_wf ch2 \<and> untouched ch actor admitted present ch2"
    using ch1(1-3) assms(3) by (auto simp: dropMember_eq split: option.splits)
qed

lemma protected_join:
  assumes a: "protected_room n ch actor (admits ch nick) (w_app w)" and op: "\<not> isOperator ch actor"
    and e: "ensureChannel k w = (c, w1)" and adm: "ch_inviteOnly c \<Longrightarrow> isInvited c nick"
  shows "protected_room n ch actor (admits ch nick)
    (w_app (set_channels (om_put k (clearInvite (addMember c actor (Channel_empty c)) nick) (channels w1)) w1))"
  using a
proof (rule protected_change)
  show "app_clients (w_app (set_channels (om_put k (clearInvite (addMember c actor (Channel_empty c)) nick) (channels w1)) w1)) = clients w"
    using e by (cases rule: ensureChannel_cases) simp_all
  fix ch1 p present
  assume ch1: "om_get (channels w) n = Some ch1" "channel_wf ch1" "untouched ch actor (admits ch nick) present ch1"
    "p \<noteq> actor" "hasMember ch1 p"
  let ?c2 = "clearInvite (addMember ch1 actor (Channel_empty ch1)) nick"
  have "\<not> Channel_empty ch1" using ch1(5) by (auto simp: Channel_empty_iff)
  then have "untouched ch actor (admits ch nick) present ?c2" if "ch_inviteOnly ch1 \<Longrightarrow> isInvited ch1 nick"
    using that ch1(3) op by (auto simp: untouched_def admits_def dest!: isInvited_clear)
  moreover have "k = n \<Longrightarrow> c = ch1 \<and> w1 = w" using e ch1(1) by (auto simp: ensureChannel_def)
  moreover have "om_get (channels w1) n = Some ch1" using e ch1(1) by (cases rule: ensureChannel_cases) auto
  ultimately show "\<exists>ch2. om_get (channels (set_channels (om_put k (clearInvite (addMember c actor (Channel_empty c)) nick)
      (channels w1)) w1)) n = Some ch2 \<and> channel_wf ch2 \<and> untouched ch actor (admits ch nick) present ch2"
    using ch1(2,3) adm by (cases "k = n") auto
qed

lemma named_room_put:
  assumes "protected_room n ch actor admitted (w_app w)" and "om_get (channels w) k = Some c"
    and "service_ok R E (set_channels (om_put k c2 (channels w)) w)" and "\<not> isOperator ch actor" and "named actor nick (w_app w)"
    and "admitted = admits ch nick"
    and "\<And>present. k = n \<Longrightarrow> untouched ch actor admitted present c \<Longrightarrow> untouched ch actor admitted present c2"
    and "channel_wf c \<Longrightarrow> channel_wf c2"
  shows "named_room.held ch actor nick n R E (set_channels (om_put k c2 (channels w)) w)"
  using protected_put [OF assms(1,2,7,8)] assms(3-6) by (simp add: named_def)

interpretation stranger: channel_invariant "named_room.held ch actor nick n" actor "\<lambda>k. k \<noteq> n" for n ch actor nick
proof
  fix R E w k c w1 st x t y change b
  assume ok: "named_room.held ch actor nick n R E w"
  then have svc: "service_ok R E w" and op: "\<not> isOperator ch actor" and nick: "named actor nick (w_app w)"
    and room: "protected_room n ch actor (admits ch nick) (w_app w)" by auto
  have keep: "named actor nick (w_app v)" if "clients v = clients w" for v using nick that by (simp add: named_def)
  show "named_room.held ch actor nick n R E (dropMember k actor w)"
    using cmd.dropMember [OF svc] op protected_drop [OF room op] keep by (simp add: dropMember_eq split: option.splits)
  show "k \<noteq> n \<Longrightarrow> named_room.held ch actor nick n R E (dropMember k x w)"
    using cmd.dropMember [OF svc] op protected_drop [OF room op] keep by (simp add: dropMember_eq split: option.splits)
  show "named_room.held ch actor nick n R E (set_channels (om_put k (setTopic c t) (channels w)) w)"
    if c: "om_get (channels w) k = Some c" and "ch_topicProtected c \<Longrightarrow> k \<noteq> n"
    using that cmd.by_client.retitled [OF svc] op nick
    by (intro named_room_put [OF room c]) (auto simp: untouched_def)
  show "named_room.held ch actor nick n R E (set_channels (om_put k (invite c y) (channels w)) w)"
    if c: "om_get (channels w) k = Some c" and "ch_inviteOnly c \<Longrightarrow> k \<noteq> n"
    using that cmd.by_client.welcomed [OF svc] op nick
    by (intro named_room_put [OF room c]) (auto simp: untouched_def)
  show "om_get (channels w) k = Some c \<Longrightarrow> k \<noteq> n \<Longrightarrow>
      change = (\<lambda>ch. setInviteOnly ch b) \<or> change = (\<lambda>ch. setTopicProtected ch b) \<or>
        (\<exists>x. hasMember c x \<and> change = (\<lambda>ch. setOperator ch x b)) \<Longrightarrow>
      named_room.held ch actor nick n R E (set_channels (om_put k (change c) (channels w)) w)"
    using cmd.by_client.reformed [OF svc] op nick protected_elsewhere [OF room] by (simp add: named_def)
  assume e: "ensureChannel k w = (c, w1)" and v: "isValidName k" and st: "registry_find (clients w) actor = Some st" "cs_registered st"
    and new: "\<not> hasMember c actor" and adm: "ch_inviteOnly c \<Longrightarrow> isInvited c (cs_nick st)"
  have eq: "cs_nick st = nick" using nick st(1) by (simp add: named_def)
  have "clients w1 = clients w" using e by (cases rule: ensureChannel_cases) simp_all
  then show "named_room.held ch actor nick n R E
      (set_channels (om_put k (clearInvite (addMember c actor (Channel_empty c)) (cs_nick st)) (channels w1)) w1)"
    using cmd.by_client.joined [OF svc e v st new adm] op nick protected_join [OF room op e adm [unfolded eq]]
    by (simp add: eq named_def)
qed

section \<open>Whatever line is sent\<close>

text \<open>A client may change its own entry in the registry, and its name, but the condition only asks who is there.\<close>

lemma protected_presence:
  assumes "protected_room n ch actor admitted a" and "app_channels a' = app_channels a"
    and "\<And>m. registry_find (app_clients a') m = None \<longleftrightarrow> registry_find (app_clients a) m = None"
  shows "protected_room n ch actor admitted a'"
  using assms(1) unfolding protected_room_def by (simp only: assms(2,3) not_False_eq_True)

interpretation bystander: identity_invariant "closed.held n ch actor admitted" actor True for n ch actor admitted
proof
  fix R E w st st' k t
  assume ok: "closed.held n ch actor admitted R E w"
  show "closed.held n ch actor admitted R E (put_client actor st' w)"
    if "registry_find (clients w) actor = Some st" "client_ok actor st'" "cs_nick st' = cs_nick st"
      "cs_registered st \<Longrightarrow> cs_registered st'" "True \<or> cs_passOk st' = cs_passOk st"
      "window_step (os_now (w_os w)) (cs_commandWindow st) (cs_commandWindow st')"
    using ok session.set_client [OF _ that] that(1) by (auto elim!: protected_presence split: if_splits)
  show "closed.held n ch actor admitted R E (set_clients (setNickname (clients w) actor k) w)"
    if "registry_find (clients w) actor = Some st" "isValidNickname k" "findFdByNickname (clients w) k \<in> {-1, actor}"
    using ok session.renaming [OF _ that] that(1) by (auto simp: find_setNickname elim!: protected_presence split: if_splits)
  show "closed.held n ch actor admitted R E (w\<lparr>w_app := (w_app w)\<lparr>app_nextHeartbeatToken := t\<rparr>\<rparr>)"
    using ok session.token by (auto elim!: protected_presence)
qed

text \<open>
  C6: Authority over a channel rests with its operators.  Whatever line a client sends that is not an operator of a
  channel, as long as another member stays connected the channel is still there afterwards with the same modes, the
  same operators and, the sender apart, the same members, less those that are no longer connected.  A protected topic is
  the same, an invite-only channel has no new invitation, and the sender is a member only if it was one before or
  the channel admitted it under the nickname it had.
\<close>

theorem channel_authority:
  assumes ok: "service_ok {} {} w" and st: "registry_find (clients w) (cn_fd c) = Some st"
    and ch: "om_get (channels w) n = Some ch" "\<not> isOperator ch (cn_fd c)"
    and w': "w' = onLine c line w" and p: "p \<noteq> cn_fd c" "hasMember ch p" "findConnection w' p \<noteq> None"
  shows "\<exists>ch'. om_get (channels w') n = Some ch' \<and>
    (\<forall>m. m \<noteq> cn_fd c \<longrightarrow> hasMember ch' m = (hasMember ch m \<and> findConnection w' m \<noteq> None)) \<and>
    (\<forall>m. isOperator ch' m = (isOperator ch m \<and> findConnection w' m \<noteq> None)) \<and>
    ch_inviteOnly ch' = ch_inviteOnly ch \<and> ch_topicProtected ch' = ch_topicProtected ch \<and>
    (ch_topicProtected ch \<longrightarrow> ch_topic ch' = ch_topic ch \<and> ch_hasTopic ch' = ch_hasTopic ch) \<and>
    (ch_inviteOnly ch \<longrightarrow> (\<forall>x. isInvited ch' x \<longrightarrow> isInvited ch x)) \<and>
    (hasMember ch' (cn_fd c) \<longrightarrow> hasMember ch (cn_fd c) \<or> \<not> ch_inviteOnly ch \<or> isInvited ch (cs_nick st))"
proof -
  let ?f = "cn_fd c" and ?adm = "admits ch (cs_nick st)"
  let ?P = "closed.held n ch ?f ?adm"
  have "channel_wf ch" using service_channelD [OF ok ch(1)] by (simp add: channel_ok_def)
  moreover have "untouched ch ?f ?adm (\<lambda>m. registry_find (clients w) m \<noteq> None) ch"
    using service_channelD [OF ok ch(1)] by (auto simp: untouched_def channel_ok_def channel_wf_def)
  ultimately have start: "?P {} {?f} w" using svc.mono [OF ok] ch(1) by (simp add: protected_room_def)
  have "?P {} {?f} (handleMessage ?f m v)"
    if v: "?P {} {?f} v" "channels v = channels w" "registry_find (clients v) ?f = Some sv" "cs_nick sv = cs_nick st"
      "cs_registered sv" "msg_command m \<in> channel_commands" for m v sv
  proof -
    have "named_room.held ch ?f (cs_nick st) n {} {?f} v" using v(1,3,4) ch(2) by (simp add: named_def)
    moreover have "empowered ?f (\<lambda>k. k \<noteq> n) v" using ch v(2) by (auto simp: empowered_def)
    ultimately have "named_room.held ch ?f (cs_nick st) n {} {?f} (handleMessage ?f m v)"
      using v(3,5,6) by (intro stranger.channel_command)
    then show ?thesis by simp
  qed
  with start have after: "?P {} {?f} w'" unfolding w' by (intro bystander.onLine_with [OF _ st]) simp_all
  then have "service_ok {} {?f} w'" by simp
  note here = connected_iff [OF this]
  from after have "protected_room n ch ?f ?adm (w_app w')" by simp
  then obtain ch' where "om_get (channels w') n = Some ch'" "untouched ch ?f ?adm (\<lambda>m. findConnection w' m \<noteq> None) ch'"
    using p(1,2) p(3) [unfolded here] by (rule protected_roomD) (simp only: here)
  then show ?thesis by (auto simp: untouched_def admits_def)
qed

theorem channel_authority_witness:
  "\<exists>ch'. om_get (channels (onLine (Connection 5 ''127.0.0.1:5005'' 512 1048576) ''KICK #a alice'' chat)) ''#a'' = Some ch' \<and>
     hasMember ch' 4 \<and> isOperator ch' 4 \<and> \<not> isOperator ch' 5"
proof -
  let ?c = "Connection 5 ''127.0.0.1:5005'' 512 1048576"
  let ?st = "(member_state 5 ''bob'')\<lparr>cs_nick := ''bob'', cs_hasNick := True\<rparr>" and ?w' = "onLine ?c ''KICK #a alice'' chat"
  have fd: "cn_fd ?c = 5" by (simp add: Connection_def)
  have pre: "registry_find (clients chat) (cn_fd ?c) = Some ?st" "om_get (channels chat) ''#a'' = Some room"
    "\<not> isOperator room (cn_fd ?c)" "4 \<noteq> cn_fd ?c" "hasMember room 4" "isOperator room 4"
    by (simp_all add: fd chat_def find_two_clients room_def)
  have "om_has (conns ?w') 4" by code_simp
  then have "findConnection ?w' 4 \<noteq> None" by (auto simp: findConnection_def)
  from channel_authority [OF chat_ok pre(1-3) refl pre(4,5) this] pre this show ?thesis by (auto simp: fd)
qed

end
