(* ===== verification/Membership.thy ===== *)
theory Membership
  imports Authority Lifecycle
begin

text \<open>
  What the server promises about rooms, as an abstract machine on sets and maps: who is there under which
  nickname, who is in which room, and who may change what.  The program refines it: every line of a client is a
  sequence of steps that the machine allows this client, and in every round of the program exactly those clients
  get to act, in their order, whose input it reads.
\<close>

section \<open>The abstract machine\<close>

record room_spec =
  rm_members :: "fd set"
  rm_operators :: "fd set"
  rm_invited :: "string set"
  rm_closed :: bool
  rm_locked :: bool
  rm_subject :: "string option"

record hub =
  hb_people :: "fd \<rightharpoonup> string"
  hb_rooms :: "string \<rightharpoonup> room_spec"

definition hub_init :: hub where
  "hub_init = \<lparr>hb_people = Map.empty, hb_rooms = Map.empty\<rparr>"

definition new_room :: "fd \<Rightarrow> room_spec" where
  "new_room a = \<lparr>rm_members = {a}, rm_operators = {a}, rm_invited = {}, rm_closed = False, rm_locked = True, rm_subject = None\<rparr>"

text \<open>A room without one of its members; it ceases to exist with the last one.\<close>

definition without :: "fd \<Rightarrow> room_spec \<Rightarrow> room_spec option" where
  "without x r =
     (if x \<notin> rm_members r then Some r
      else if rm_members r = {x} then None
      else Some (r\<lparr>rm_members := rm_members r - {x}, rm_operators := rm_operators r - {x}\<rparr>))"

definition set_room :: "string \<Rightarrow> room_spec option \<Rightarrow> hub \<Rightarrow> hub" where
  "set_room n r h = h\<lparr>hb_rooms := (hb_rooms h)(n := r)\<rparr>"

definition vanish :: "fd \<Rightarrow> hub \<Rightarrow> hub" where
  "vanish x h = \<lparr>hb_people = (hb_people h)(x := None), hb_rooms = (\<lambda>n. Option.bind (hb_rooms h n) (without x))\<rparr>"

text \<open>
  One effect of a command of the client \<open>a\<close> with authority over the rooms \<open>A\<close>.  Anybody's connection may be lost at
  any time.
\<close>

inductive act :: "fd \<Rightarrow> string set \<Rightarrow> hub \<Rightarrow> hub \<Rightarrow> bool" for a A where
  found: "hb_people h a = Some nick \<Longrightarrow> isValidName n \<Longrightarrow> hb_rooms h n = None \<Longrightarrow>
    act a A h (set_room n (Some (new_room a)) h)"
| enter: "hb_people h a = Some nick \<Longrightarrow> hb_rooms h n = Some r \<Longrightarrow> a \<notin> rm_members r \<Longrightarrow>
    (rm_closed r \<Longrightarrow> canonicalNick nick \<in> rm_invited r) \<Longrightarrow>
    act a A h (set_room n (Some (r\<lparr>rm_members := insert a (rm_members r),
      rm_invited := rm_invited r - {canonicalNick nick}\<rparr>)) h)"
| leave: "hb_rooms h n = Some r \<Longrightarrow> act a A h (set_room n (without a r) h)"
| expel: "hb_rooms h n = Some r \<Longrightarrow> n \<in> A \<Longrightarrow> act a A h (set_room n (without x r) h)"
| retitle: "hb_rooms h n = Some r \<Longrightarrow> (rm_locked r \<Longrightarrow> n \<in> A) \<Longrightarrow> act a A h (set_room n (Some (r\<lparr>rm_subject := Some t\<rparr>)) h)"
| greet: "hb_rooms h n = Some r \<Longrightarrow> (rm_closed r \<Longrightarrow> n \<in> A) \<Longrightarrow>
    act a A h (set_room n (Some (r\<lparr>rm_invited := insert (canonicalNick nick) (rm_invited r)\<rparr>)) h)"
| shut: "hb_rooms h n = Some r \<Longrightarrow> n \<in> A \<Longrightarrow> act a A h (set_room n (Some (r\<lparr>rm_closed := b\<rparr>)) h)"
| lock: "hb_rooms h n = Some r \<Longrightarrow> n \<in> A \<Longrightarrow> act a A h (set_room n (Some (r\<lparr>rm_locked := b\<rparr>)) h)"
| promote: "hb_rooms h n = Some r \<Longrightarrow> n \<in> A \<Longrightarrow> x \<in> rm_members r \<Longrightarrow>
    act a A h (set_room n (Some (r\<lparr>rm_operators := insert x (rm_operators r)\<rparr>)) h)"
| demote: "hb_rooms h n = Some r \<Longrightarrow> n \<in> A \<Longrightarrow>
    act a A h (set_room n (Some (r\<lparr>rm_operators := rm_operators r - {x}\<rparr>)) h)"
| lose: "act a A h (vanish x h)"

text \<open>
  A client acts with the authority it has when its command begins, or it takes a nickname that nobody else has in any
  spelling, with which it is registered from then on.
\<close>

definition runs :: "hub \<Rightarrow> fd \<Rightarrow> string set" where
  "runs h a = {n. \<exists>r. hb_rooms h n = Some r \<and> a \<in> rm_operators r}"

inductive hub_step :: "fd \<Rightarrow> hub \<Rightarrow> hub \<Rightarrow> bool" for a where
  command: "(act a (runs h a))\<^sup>*\<^sup>* h h' \<Longrightarrow> hub_step a h h'"
| identify: "isValidNickname nick \<Longrightarrow> (\<And>x other. x \<noteq> a \<Longrightarrow> hb_people h x = Some other \<Longrightarrow> canonicalNick other \<noteq> canonicalNick nick) \<Longrightarrow>
    hub_step a h (h\<lparr>hb_people := (hb_people h)(a \<mapsto> nick)\<rparr>)"

definition lost :: "hub \<Rightarrow> hub \<Rightarrow> bool" where
  "lost h h' \<longleftrightarrow> (\<exists>x. h' = vanish x h)"

text \<open>
  The clients in the list act in this order, each any number of times; between two turns, and before the first and after
  the last, connections may be lost, but nobody acts whose turn it is not.
\<close>

inductive follows :: "fd list \<Rightarrow> hub \<Rightarrow> hub \<Rightarrow> bool" where
  idle: "follows [] h h"
| loss: "follows as h h' \<Longrightarrow> follows as h (vanish x h')"
| turn: "follows as h h' \<Longrightarrow> (hub_step a)\<^sup>*\<^sup>* h' h'' \<Longrightarrow> follows (as @ [a]) h h''"

lemma follows_lost: "lost\<^sup>*\<^sup>* h' h'' \<Longrightarrow> follows as h h' \<Longrightarrow> follows as h h''"
  by (induction rule: rtranclp_induct) (auto simp: lost_def intro: loss)

lemma follows_skip: "follows as h h' \<Longrightarrow> follows (as @ bs) h h'"
proof (induction bs rule: rev_induct)
  case (snoc b bs)
  then have "follows ((as @ bs) @ [b]) h h'" by (blast intro: turn)
  then show ?case by simp
qed simp

lemma follows_nobody: "follows as h h"
  using follows_skip [OF idle] by (metis append_Nil)

section \<open>The machine keeps its own rules\<close>

definition room_ok :: "(fd \<rightharpoonup> string) \<Rightarrow> string \<Rightarrow> room_spec \<Rightarrow> bool" where
  "room_ok people n r \<longleftrightarrow> isValidName n \<and> rm_members r \<noteq> {} \<and> rm_operators r \<subseteq> rm_members r \<and> rm_members r \<subseteq> dom people"

definition hub_ok :: "hub \<Rightarrow> bool" where
  "hub_ok h \<longleftrightarrow>
     (\<forall>n r. hb_rooms h n = Some r \<longrightarrow> room_ok (hb_people h) n r) \<and>
     (\<forall>x y s t. hb_people h x = Some s \<longrightarrow> hb_people h y = Some t \<longrightarrow> canonicalNick s = canonicalNick t \<longrightarrow> x = y)"

lemma hub_okI:
  assumes "\<And>n r. hb_rooms h n = Some r \<Longrightarrow> room_ok (hb_people h) n r"
    and "\<And>x y s t. hb_people h x = Some s \<Longrightarrow> hb_people h y = Some t \<Longrightarrow> canonicalNick s = canonicalNick t \<Longrightarrow> x = y"
  shows "hub_ok h"
  using assms unfolding hub_ok_def by blast

lemma set_room_simps [simp]:
  "hb_people (set_room n r h) = hb_people h" "hb_rooms (set_room n r h) = (hb_rooms h)(n := r)"
  by (simp_all add: set_room_def)

lemma vanish_simps [simp]:
  "hb_people (vanish x h) = (hb_people h)(x := None)" "hb_rooms (vanish x h) n = Option.bind (hb_rooms h n) (without x)"
  by (simp_all add: vanish_def)

lemma hub_ok_set_room:
  assumes "hub_ok h" and "\<And>r'. r = Some r' \<Longrightarrow> room_ok (hb_people h) n r'"
  shows "hub_ok (set_room n r h)"
  using assms unfolding hub_ok_def by simp

lemma room_ok_without:
  assumes "room_ok people n r" and "without x r = Some r'"
  shows "room_ok people n r'" and "x \<notin> rm_members r'"
  using assms by (auto simp: without_def room_ok_def split: if_splits)

lemma hub_ok_vanish:
  assumes ok: "hub_ok h"
  shows "hub_ok (vanish x h)"
proof -
  have "room_ok (hb_people (vanish x h)) n r" if "hb_rooms (vanish x h) n = Some r" for n r
  proof -
    from that obtain r0 where r0: "hb_rooms h n = Some r0" "without x r0 = Some r" by (auto simp: bind_eq_Some_conv)
    with ok have "room_ok (hb_people h) n r0" by (simp add: hub_ok_def)
    from room_ok_without [OF this r0(2)] show ?thesis by (auto simp: room_ok_def)
  qed
  moreover have "\<forall>a b s t. hb_people (vanish x h) a = Some s \<longrightarrow> hb_people (vanish x h) b = Some t \<longrightarrow>
      canonicalNick s = canonicalNick t \<longrightarrow> a = b"
    using ok unfolding hub_ok_def by simp
  ultimately show ?thesis unfolding hub_ok_def by blast
qed

lemma act_ok:
  assumes "act a A h h'" and ok: "hub_ok h"
  shows "hub_ok h'"
proof -
  have room: "room_ok (hb_people h) n r" if "hb_rooms h n = Some r" for n r using ok that by (simp add: hub_ok_def)
  note change = hub_ok_set_room [OF ok]
  from assms(1) show ?thesis
  proof cases
    case found
    then show ?thesis by (auto intro!: change simp: room_ok_def new_room_def)
  next
    case enter
    with room [OF enter(3)] show ?thesis by (auto intro!: change simp: room_ok_def)
  next
    case leave
    then show ?thesis using room by (auto intro!: change intro: room_ok_without)
  next
    case expel
    then show ?thesis using room by (auto intro!: change intro: room_ok_without)
  next
    case lose
    then show ?thesis using ok by (simp add: hub_ok_vanish)
  qed (auto intro!: change dest!: room simp: room_ok_def)
qed

lemma hub_ok_identify:
  assumes ok: "hub_ok h" and free: "\<And>x other. x \<noteq> a \<Longrightarrow> hb_people h x = Some other \<Longrightarrow> canonicalNick other \<noteq> canonicalNick nick"
  shows "hub_ok (h\<lparr>hb_people := (hb_people h)(a \<mapsto> nick)\<rparr>)" (is "hub_ok ?h")
proof (rule hub_okI)
  fix n r assume "hb_rooms ?h n = Some r"
  with ok have "room_ok (hb_people h) n r" by (simp add: hub_ok_def)
  then show "room_ok (hb_people ?h) n r" by (auto simp: room_ok_def)
next
  fix x y s t assume s: "hb_people ?h x = Some s" and t: "hb_people ?h y = Some t" and eq: "canonicalNick s = canonicalNick t"
  consider "x = a" "y = a" | (left) "x = a" "y \<noteq> a" | (right) "x \<noteq> a" "y = a" | (old) "x \<noteq> a" "y \<noteq> a" by blast
  then show "x = y"
  proof cases
    case left
    then have other: "hb_people h y = Some t" "s = nick" using s t by simp_all
    from free [OF left(2) other(1)] eq other(2) show ?thesis by simp
  next
    case right
    then have other: "hb_people h x = Some s" "t = nick" using s t by simp_all
    from free [OF right(1) other(1)] eq other(2) show ?thesis by simp
  next
    case old
    then have "hb_people h x = Some s" "hb_people h y = Some t" using s t by simp_all
    with ok eq show ?thesis unfolding hub_ok_def by blast
  qed simp
qed

lemma acts_ok: "(act a A)\<^sup>*\<^sup>* h h' \<Longrightarrow> hub_ok h \<Longrightarrow> hub_ok h'"
  by (induction rule: rtranclp_induct) (auto intro: act_ok)

lemma hub_step_ok: "hub_step a h h' \<Longrightarrow> hub_ok h \<Longrightarrow> hub_ok h'"
  by (auto elim!: hub_step.cases intro: acts_ok hub_ok_identify)

lemma hub_init_ok: "hub_ok hub_init"
  by (simp add: hub_ok_def hub_init_def)

lemma hub_steps_ok: "(hub_step a)\<^sup>*\<^sup>* h h' \<Longrightarrow> hub_ok h \<Longrightarrow> hub_ok h'"
  by (induction rule: rtranclp_induct) (auto intro: hub_step_ok)

lemma follows_ok: "follows as h h' \<Longrightarrow> hub_ok h \<Longrightarrow> hub_ok h'"
  by (induction rule: follows.induct) (auto intro: hub_ok_vanish hub_steps_ok)

section \<open>The program as an instance\<close>

definition room_of :: "channel \<Rightarrow> room_spec" where
  "room_of ch =
     \<lparr>rm_members = {m. hasMember ch m}, rm_operators = {m. isOperator ch m}, rm_invited = {k. os_mem k (ch_invited ch)},
      rm_closed = ch_inviteOnly ch, rm_locked = ch_topicProtected ch,
      rm_subject = (if ch_hasTopic ch then Some (ch_topic ch) else None)\<rparr>"

definition hub_of :: "irc_application \<Rightarrow> hub" where
  "hub_of a = \<lparr>hb_people = enrolled a, hb_rooms = (\<lambda>n. map_option room_of (om_get (app_channels a) n))\<rparr>"

lemma hub_of_simps [simp]:
  "hb_people (hub_of a) = enrolled a" "hb_rooms (hub_of a) n = map_option room_of (om_get (app_channels a) n)"
  by (simp_all add: hub_of_def)

lemma hub_eqI: "hb_people h = hb_people h' \<Longrightarrow> (\<And>n. hb_rooms h n = hb_rooms h' n) \<Longrightarrow> h = (h' :: hub)"
  by (rule hub.equality) (simp_all add: fun_eq_iff)

lemma hub_of_cong: "enrolled a' = enrolled a \<Longrightarrow> app_channels a' = app_channels a \<Longrightarrow> hub_of a' = hub_of a"
  by (simp add: hub_of_def)

lemma room_of_simps [simp]:
  "rm_closed (room_of ch) = ch_inviteOnly ch" "rm_locked (room_of ch) = ch_topicProtected ch"
  "x \<in> rm_members (room_of ch) \<longleftrightarrow> hasMember ch x" "x \<in> rm_operators (room_of ch) \<longleftrightarrow> isOperator ch x"
  "canonicalNick nick \<in> rm_invited (room_of ch) \<longleftrightarrow> isInvited ch nick"
  by (simp_all add: room_of_def isInvited_def)

lemma room_of_ops:
  "room_of (setTopic ch t) = (room_of ch)\<lparr>rm_subject := Some t\<rparr>"
  "room_of (invite ch x) = (room_of ch)\<lparr>rm_invited := insert (canonicalNick x) (rm_invited (room_of ch))\<rparr>"
  "room_of (setInviteOnly ch b) = (room_of ch)\<lparr>rm_closed := b\<rparr>"
  "room_of (setTopicProtected ch b) = (room_of ch)\<lparr>rm_locked := b\<rparr>"
  "room_of (clearInvite (addMember ch a False) x) =
     (room_of ch)\<lparr>rm_members := insert a (rm_members (room_of ch)), rm_invited := rm_invited (room_of ch) - {canonicalNick x}\<rparr>"
  "room_of (clearInvite (addMember (Channel now n) a True) x) = new_room a"
  by (auto simp: room_of_def channel_defs Let_def Channel_def new_room_def)

lemma room_of_setOperator:
  assumes "hasMember ch x"
  shows "room_of (setOperator ch x b) =
    (room_of ch)\<lparr>rm_operators := if b then insert x (rm_operators (room_of ch)) else rm_operators (room_of ch) - {x}\<rparr>"
  using assms by (auto simp: room_of_def channel_defs Let_def)

lemma without_room_of:
  assumes "hasMember ch x \<or> channel_wf ch \<and> (\<exists>m. hasMember ch m)"
  shows "without x (room_of ch) = (if Channel_empty (removeMember ch x) then None else Some (room_of (removeMember ch x)))"
proof (cases "hasMember ch x")
  case True
  then have "{m. hasMember ch m} = {x} \<longleftrightarrow> Channel_empty (removeMember ch x)" by (auto simp: Channel_empty_iff)
  with True show ?thesis by (auto simp: without_def room_of_def) (auto simp: channel_defs)
next
  case False
  with assms have "room_of (removeMember ch x) = room_of ch"
    by (auto simp: room_of_def channel_wf_def) (auto simp: channel_defs)
  with False assms show ?thesis by (auto simp: without_def room_of_def Channel_empty_iff)
qed

lemma hub_of_put: "hub_of (w_app (set_channels (om_put n ch (channels w)) w)) = set_room n (Some (room_of ch)) (hub_of (w_app w))"
  by (rule hub_eqI) (auto simp: enrolled_def fun_eq_iff)

lemma hub_of_purge: "hub_of (w_app (purge fd w)) = vanish fd (hub_of (w_app w))"
proof (rule hub_eqI)
  show "hb_people (hub_of (w_app (purge fd w))) = hb_people (vanish fd (hub_of (w_app w)))"
    by (auto simp: enrolled_def fun_eq_iff find_erase)
  show "hb_rooms (hub_of (w_app (purge fd w))) n = hb_rooms (vanish fd (hub_of (w_app w))) n" for n
  proof (cases "om_get (channels w) n")
    case (Some ch)
    show ?thesis
    proof (cases "hasMember ch fd")
      case True
      then show ?thesis by (simp add: channels_purge Some without_room_of)
    qed (simp add: channels_purge Some without_def room_of_def)
  qed (simp add: channels_purge)
qed

lemma hub_of_dropMember:
  assumes "service_ok R E w"
  shows "hub_of (w_app (dropMember n x w)) =
    (case om_get (channels w) n of None \<Rightarrow> hub_of (w_app w) | Some ch \<Rightarrow> set_room n (without x (room_of ch)) (hub_of (w_app w)))"
proof (cases "om_get (channels w) n")
  case (Some ch)
  then have "channel_wf ch \<and> (\<exists>m. hasMember ch m)" using service_channelD [OF assms] by (auto simp: channel_ok_def)
  then have eq: "without x (room_of ch) = (if Channel_empty (removeMember ch x) then None else Some (room_of (removeMember ch x)))"
    by (intro without_room_of) simp
  show ?thesis
    by (rule hub_eqI) (auto simp: Some dropMember_eq eq enrolled_def fun_eq_iff)
qed (simp add: dropMember_eq)

section \<open>Every command is a sequence of steps\<close>

interpretation acting: counter_predicate "\<lambda>a. (act actor A)\<^sup>*\<^sup>* h0 (hub_of a)" for actor A h0
proof
  show "(act actor A)\<^sup>*\<^sup>* h0 (hub_of (w_app w)) \<Longrightarrow> (act actor A)\<^sup>*\<^sup>* h0 (hub_of (w_app (purge fd w)))" for w fd
    unfolding hub_of_purge by (rule rtranclp.rtrancl_into_rtrancl) (auto intro: act.lose)
  show "(act actor A)\<^sup>*\<^sup>* h0 (hub_of a) \<Longrightarrow> (act actor A)\<^sup>*\<^sup>* h0 (hub_of (a\<lparr>app_metrics := k\<rparr>))" for a k
    by (subst hub_of_cong [of "a\<lparr>app_metrics := k\<rparr>" a]) (simp_all add: enrolled_def fun_eq_iff)
qed

text \<open>A channel is put back after a change that the machine allows.\<close>

lemma acting_put:
  assumes "acting.held actor A h0 R E w" and "service_ok R E (set_channels (om_put n ch (channels w)) w)"
    and "act actor A (hub_of (w_app w)) (set_room n (Some (room_of ch)) (hub_of (w_app w)))"
  shows "acting.held actor A h0 R E (set_channels (om_put n ch (channels w)) w)"
proof (intro conjI assms(2))
  show "(act actor A)\<^sup>*\<^sup>* h0 (hub_of (w_app (set_channels (om_put n ch (channels w)) w)))"
    unfolding hub_of_put using assms(1,3) by (blast intro: rtranclp.rtrancl_into_rtrancl)
qed

lemma acting_drop:
  assumes ok: "acting.held actor A h0 R E w" and x: "x = actor \<or> n \<in> A"
  shows "acting.held actor A h0 R E (dropMember n x w)"
proof -
  have svc: "service_ok R E w" using ok by simp
  have "(act actor A)\<^sup>*\<^sup>* h0 (hub_of (w_app (dropMember n x w)))"
  proof (cases "om_get (channels w) n")
    case None
    with ok show ?thesis by (simp add: hub_of_dropMember [OF svc])
  next
    case (Some ch)
    then have r: "hb_rooms (hub_of (w_app w)) n = Some (room_of ch)" by simp
    have "act actor A (hub_of (w_app w)) (set_room n (without x (room_of ch)) (hub_of (w_app w)))"
      using x act.leave [OF r] act.expel [OF r] by blast
    with ok Some show ?thesis
      by (simp add: hub_of_dropMember [OF svc]) (blast intro: rtranclp.rtrancl_into_rtrancl)
  qed
  with cmd.dropMember [OF svc] show ?thesis by simp
qed

interpretation actions: channel_invariant "acting.held actor A h0" actor "\<lambda>n. n \<in> A" for actor A h0
proof
  fix R E w k c w1 st x t y change b
  assume ok: "acting.held actor A h0 R E w"
  then have svc: "service_ok R E w" by simp
  note svc_ok = cmd.by_client.retitled [OF svc] cmd.by_client.welcomed [OF svc]
  have room: "hb_rooms (hub_of (w_app w)) k = Some (room_of c)" if "om_get (channels w) k = Some c" using that by simp
  show "acting.held actor A h0 R E (dropMember k actor w)" using ok by (rule acting_drop) simp
  show "k \<in> A \<Longrightarrow> acting.held actor A h0 R E (dropMember k x w)" using ok by (rule acting_drop) simp
  show "acting.held actor A h0 R E (set_channels (om_put k (setTopic c t) (channels w)) w)"
    if "om_get (channels w) k = Some c" "ch_topicProtected c \<Longrightarrow> k \<in> A"
    by (rule acting_put [OF ok svc_ok(1)])
       (use that act.retitle [OF room] in \<open>auto simp: room_of_ops\<close>)
  show "acting.held actor A h0 R E (set_channels (om_put k (invite c y) (channels w)) w)"
    if "om_get (channels w) k = Some c" "ch_inviteOnly c \<Longrightarrow> k \<in> A"
    by (rule acting_put [OF ok svc_ok(2)])
       (use that act.greet [OF room] in \<open>auto simp: room_of_ops\<close>)
  show "acting.held actor A h0 R E (set_channels (om_put k (change c) (channels w)) w)"
    if k: "om_get (channels w) k = Some c" "k \<in> A"
      and c: "change = (\<lambda>ch. setInviteOnly ch b) \<or> change = (\<lambda>ch. setTopicProtected ch b) \<or>
        (\<exists>x. hasMember c x \<and> change = (\<lambda>ch. setOperator ch x b))"
  proof (rule acting_put [OF ok cmd.by_client.reformed [OF svc k(1) TrueI c]])
    note r = room [OF k(1)]
    have "act actor A (hub_of (w_app w)) (set_room k (Some (room_of (setOperator c x b))) (hub_of (w_app w)))"
      if "hasMember c x" for x
      using that act.promote [OF r k(2), of x] act.demote [OF r k(2)] by (simp add: room_of_setOperator)
    with c act.shut [OF r k(2)] act.lock [OF r k(2)]
    show "act actor A (hub_of (w_app w)) (set_room k (Some (room_of (change c))) (hub_of (w_app w)))"
      by (auto simp: room_of_ops)
  qed
  assume e: "ensureChannel k w = (c, w1)" and v: "isValidName k" and st: "registry_find (clients w) actor = Some st" "cs_registered st"
    and new: "\<not> hasMember c actor" and adm: "ch_inviteOnly c \<Longrightarrow> isInvited c (cs_nick st)"
  have nick: "hb_people (hub_of (w_app w)) actor = Some (cs_nick st)" using st by (simp add: enrolled_def)
  note joined = cmd.by_client.joined [OF svc e v st new adm]
  show "acting.held actor A h0 R E
      (set_channels (om_put k (clearInvite (addMember c actor (Channel_empty c)) (cs_nick st)) (channels w1)) w1)"
    using e
  proof (cases rule: ensureChannel_cases)
    case old
    then have "\<exists>m. hasMember c m" using service_channelD [OF svc] by (auto simp: channel_ok_def)
    then have "\<not> Channel_empty c" by (simp add: Channel_empty_iff)
    then have "act actor A (hub_of (w_app w))
        (set_room k (Some (room_of (clearInvite (addMember c actor (Channel_empty c)) (cs_nick st)))) (hub_of (w_app w)))"
      using act.enter [OF nick room [OF old(1)]] new adm by (simp add: room_of_ops)
    with acting_put [OF ok] joined old show ?thesis by blast
  next
    case (new now f nm fs)
    have full: "Channel_empty c" by (simp add: new(1) Channel_empty_iff)
    have "act actor A (hub_of (w_app w)) (set_room k (Some (new_room actor)) (hub_of (w_app w)))"
      using nick v by (rule act.found) (simp add: new(2))
    moreover have "hub_of (w_app (set_channels (om_put k (clearInvite (addMember c actor True) (cs_nick st)) (channels w1)) w1)) =
        set_room k (Some (new_room actor)) (hub_of (w_app w))"
      unfolding hub_of_put by (rule hub_eqI) (auto simp: new(1,3) room_of_ops enrolled_def fun_eq_iff)
    ultimately show ?thesis
      using ok joined full by (simp only: if_True) (blast intro: rtranclp.rtrancl_into_rtrancl)
  qed
qed

section \<open>Every line is a sequence of steps\<close>

lemma enrolled_Some: "enrolled a fd = Some nick \<longleftrightarrow> (\<exists>st. registry_find (app_clients a) fd = Some st \<and> cs_registered st \<and> cs_nick st = nick)"
  by (auto simp: enrolled_def split: option.splits)

lemma identify_step:
  assumes ok: "service_ok R E w'" and "channels w' = channels w"
    and enrolled: "enrolled (w_app w') = (enrolled (w_app w))(actor \<mapsto> nick)"
  shows "hub_step actor (hub_of (w_app w)) (hub_of (w_app w'))"
proof -
  have named: "isValidNickname n \<and> n \<noteq> []" if "enrolled (w_app w') x = Some n" for x n
  proof -
    from that obtain st where "registry_find (clients w') x = Some st" "cs_registered st" "cs_nick st = n"
      by (auto simp: enrolled_Some)
    with service_client_ok [OF ok] show ?thesis by (auto simp: client_ok_def)
  qed
  have here: "enrolled (w_app w') actor = Some nick" by (simp add: enrolled)
  have "canonicalNick other \<noteq> canonicalNick nick" if "x \<noteq> actor" "hb_people (hub_of (w_app w)) x = Some other" for x other
  proof -
    have there: "enrolled (w_app w') x = Some other" using that by (simp add: enrolled)
    have "registry_inv (clients w')" using ok by (auto simp: service_ok_def dest: app_okD(1))
    with here there named [OF here] named [OF there] that(1) show ?thesis
      by (auto simp: enrolled_Some dest: registry_nick_unique)
  qed
  with named [OF here] have "hub_step actor (hub_of (w_app w))
      ((hub_of (w_app w))\<lparr>hb_people := (hb_people (hub_of (w_app w)))(actor \<mapsto> nick)\<rparr>)" by (intro hub_step.identify) auto
  moreover have "(hub_of (w_app w))\<lparr>hb_people := (hb_people (hub_of (w_app w)))(actor \<mapsto> nick)\<rparr> = hub_of (w_app w')"
    using assms(2) enrolled by (intro hub_eqI) simp_all
  ultimately show ?thesis by simp
qed

lemma hub_step_id: "hub_step a h h"
  by (rule hub_step.command) simp

lemma hub_step_lose: "hub_step a h (vanish x h)"
  by (rule hub_step.command) (auto intro: act.lose)

lemma put_client_step:
  assumes ok: "service_ok R E w" and st: "registry_find (clients w) actor = Some st"
    and st': "client_ok actor st'" "cs_nick st' = cs_nick st" "cs_registered st \<Longrightarrow> cs_registered st'"
  shows "hub_step actor (hub_of (w_app w)) (hub_of (w_app (put_client actor st' w)))"
proof (cases "cs_registered st'")
  case True
  have "service_ok R E (put_client actor st' w)" unfolding put_client_def by (rule service_set_client [OF ok st st'])
  then show ?thesis by (rule identify_step [where nick = "cs_nick st'"]) (auto simp: enrolled_def fun_eq_iff True)
next
  case False
  with st' st have "enrolled (w_app (put_client actor st' w)) = enrolled (w_app w)" by (auto simp: enrolled_def fun_eq_iff)
  then have "hub_of (w_app (put_client actor st' w)) = hub_of (w_app w)" by (rule hub_of_cong) simp
  then show ?thesis by (simp add: hub_step_id)
qed

lemma rename_step:
  assumes ok: "service_ok R E w" and st: "registry_find (clients w) actor = Some st"
    and n: "isValidNickname n" "findFdByNickname (clients w) n \<in> {-1, actor}"
  shows "hub_step actor (hub_of (w_app w)) (hub_of (w_app (set_clients (setNickname (clients w) actor n) w)))"
proof (cases "cs_registered st")
  case True
  with service_setNickname [OF ok st n] st show ?thesis
    by (intro identify_step [where nick = n]) (auto simp: enrolled_def fun_eq_iff find_setNickname)
next
  case False
  with st have "enrolled (w_app (set_clients (setNickname (clients w) actor n) w)) = enrolled (w_app w)"
    by (auto simp: enrolled_def fun_eq_iff find_setNickname)
  then have "hub_of (w_app (set_clients (setNickname (clients w) actor n) w)) = hub_of (w_app w)" by (rule hub_of_cong) simp
  then show ?thesis by (simp add: hub_step_id)
qed

lemma token_step: "hub_of (w_app (w\<lparr>w_app := (w_app w)\<lparr>app_nextHeartbeatToken := t\<rparr>\<rparr>)) = hub_of (w_app w)"
  by (rule hub_of_cong) (simp_all add: enrolled_def fun_eq_iff)

lemma metrics_step: "hub_of (a\<lparr>app_metrics := k\<rparr>) = hub_of a"
  by (rule hub_of_cong) (simp_all add: enrolled_def fun_eq_iff)

interpretation serving: counter_predicate "\<lambda>a. (hub_step actor)\<^sup>*\<^sup>* h0 (hub_of a)" for actor h0
  by unfold_locales
     (auto simp only: hub_of_purge metrics_step intro: rtranclp.rtrancl_into_rtrancl hub_step_lose)

interpretation sessions: identity_invariant "serving.held actor h0" actor True for actor h0
proof
  fix R E w st st' n t
  assume ok: "serving.held actor h0 R E w"
  then have svc: "service_ok R E w" and run: "(hub_step actor)\<^sup>*\<^sup>* h0 (hub_of (w_app w))" by auto
  note go = rtranclp.rtrancl_into_rtrancl [OF run]
  show "serving.held actor h0 R E (put_client actor st' w)"
    if "registry_find (clients w) actor = Some st" "client_ok actor st'" "cs_nick st' = cs_nick st"
      "cs_registered st \<Longrightarrow> cs_registered st'" "True \<or> cs_passOk st' = cs_passOk st"
      "window_step (os_now (w_os w)) (cs_commandWindow st) (cs_commandWindow st')"
    using session.set_client [OF svc that] go [OF put_client_step [OF svc that(1-4)]] by blast
  show "serving.held actor h0 R E (set_clients (setNickname (clients w) actor n) w)"
    if "registry_find (clients w) actor = Some st" "isValidNickname n" "findFdByNickname (clients w) n \<in> {-1, actor}"
    using session.renaming [OF svc that] go [OF rename_step [OF svc that]] by blast
  show "serving.held actor h0 R E (w\<lparr>w_app := (w_app w)\<lparr>app_nextHeartbeatToken := t\<rparr>\<rparr>)"
    using session.token [OF svc] run by (simp only: token_step)
qed

lemma line_steps:
  assumes ok: "service_ok {} E w" and conn: "findConnection w (cn_fd c) = Some c'" and E: "cn_fd c \<in> E"
  shows "(hub_step (cn_fd c))\<^sup>*\<^sup>* (hub_of (w_app w)) (hub_of (w_app (onLine c line w)))"
proof -
  let ?f = "cn_fd c"
  let ?P = "serving.held ?f (hub_of (w_app w))"
  obtain st where st: "registry_find (clients w) ?f = Some st" using service_client_of_conn [OF ok conn] by blast
  have "?P {} E (handleMessage ?f m v)"
    if v: "?P {} E v" "registry_find (clients v) ?f = Some sv" "cs_registered sv" "msg_command m \<in> channel_commands" for m v sv
  proof -
    have "acting.held ?f (runs (hub_of (w_app v)) ?f) (hub_of (w_app v)) {} E v" using v(1) by simp
    moreover have "empowered ?f (\<lambda>n. n \<in> runs (hub_of (w_app v)) ?f) v" by (auto simp: empowered_def runs_def)
    ultimately have after: "acting.held ?f (runs (hub_of (w_app v)) ?f) (hub_of (w_app v)) {} E (handleMessage ?f m v)"
      using v(2-4) by (intro actions.channel_command)
    then have "hub_step ?f (hub_of (w_app v)) (hub_of (w_app (handleMessage ?f m v)))" by (intro hub_step.command) simp
    with v(1) after show ?thesis by (auto intro: rtranclp.rtrancl_into_rtrancl)
  qed
  moreover have "?P {} E w" using ok by simp
  ultimately have "?P {} E (onLine c line w)" using E by (intro sessions.onLine_with [OF _ st]) simp_all
  then show ?thesis by simp
qed

text \<open>
  C4: Every line a client sends, whatever it contains, is a sequence of steps that the abstract machine allows this client:
  commands with the authority it has at that moment, taking a free nickname, and losses of connections.
\<close>

theorem line_refines_hub:
  assumes "service_ok {} {} w" and "findConnection w (cn_fd c) = Some c'"
  shows "(hub_step (cn_fd c))\<^sup>*\<^sup>* (hub_of (w_app w)) (hub_of (w_app (onLine c line w)))"
  using svc.mono [OF assms(1)] assms(2) by (rule line_steps [where E = "{cn_fd c}"]) simp_all

theorem line_refines_hub_witness:
  "(hub_step 5)\<^sup>*\<^sup>* (hub_of (w_app chat)) (hub_of (w_app (onLine (Connection 5 ''127.0.0.1:5005'' 512 1048576) ''PART #a'' chat)))"
proof -
  have "findConnection chat (cn_fd (Connection 5 ''127.0.0.1:5005'' 512 1048576)) = Some (Connection 5 ''127.0.0.1:5005'' 512 1048576)"
    by (simp add: findConnection_def chat_def Connection_def)
  from line_refines_hub [OF chat_ok this] show ?thesis by (simp add: Connection_def)
qed

section \<open>Every round of the program follows the machine\<close>

lemma still_hub: "still w w' \<Longrightarrow> hub_of (w_app w') = hub_of (w_app w)"
  by (rule hub_of_cong) (simp_all add: still_def)

lemma calls_app:
  "updateFd_call em fd i w = (r, w') \<Longrightarrow> w_app w' = w_app w" "removeFd_call em fd w = (r, w') \<Longrightarrow> w_app w' = w_app w"
  "addFd_call em fd i w = (r, w') \<Longrightarrow> w_app w' = w_app w"
  by (auto simp: updateFd_call_def removeFd_call_def addFd_call_def split: prod.splits)

lemmas hub_frames = still_hub calls_app hub_of_purge

text \<open>During the event of a client only this client acts.\<close>

interpretation speaking: round_condition "\<lambda>w. (hub_step a)\<^sup>*\<^sup>* h0 (hub_of (w_app w))" "{a}" for a h0
proof
  fix s0 E w c' l and c :: connection
  assume "steady s0 {} E w \<and> (hub_step a)\<^sup>*\<^sup>* h0 (hub_of (w_app w))" "findConnection w (cn_fd c) = Some c'" "cn_fd c \<in> E"
    "cn_fd c \<in> {a}"
  then show "(hub_step a)\<^sup>*\<^sup>* h0 (hub_of (w_app (onLine c l w)))"
    using line_steps [of E w c c' l] by (auto simp: steady_def)
qed (auto simp: hub_frames intro: rtranclp.rtrancl_into_rtrancl hub_step_lose)

text \<open>Everything else the server does on its own loses connections at most.\<close>

lemma lost_vanish: "lost\<^sup>*\<^sup>* h0 h \<Longrightarrow> lost\<^sup>*\<^sup>* h0 (vanish x h)"
  by (rule rtranclp.rtrancl_into_rtrancl) (auto simp: lost_def)

interpretation losing: round_condition "\<lambda>w. lost\<^sup>*\<^sup>* h0 (hub_of (w_app w))" "{}" for h0
  by unfold_locales (auto simp: hub_frames intro: lost_vanish)

interpretation waning: counter_predicate "\<lambda>a. lost\<^sup>*\<^sup>* h0 (hub_of a)" for h0
  by unfold_locales (auto simp only: hub_of_purge metrics_step intro: lost_vanish)

interpretation ticking: loop_invariant "waning.held h0" for h0
proof
  fix R E w actor st k now t
  assume ok: "waning.held h0 R E w"
  show "waning.held h0 R E (put_client actor (st\<lparr>cs_awaitingPong := True, cs_pendingPongToken := k, cs_lastPingAt := now\<rparr>) w)" (is "waning.held h0 R E ?w")
    if st: "registry_find (clients w) actor = Some st"
  proof -
    have "hub_of (w_app ?w) = hub_of (w_app w)"
      by (rule hub_of_cong) (use st in \<open>auto simp: enrolled_def fun_eq_iff\<close>)
    with ok session.beats.beating [of R E w actor st] st show ?thesis by simp
  qed
  show "waning.held h0 R E (w\<lparr>w_app := (w_app w)\<lparr>app_nextHeartbeatToken := t\<rparr>\<rparr>)"
    using ok session.token [of R E w] by (simp only: token_step)
qed

lemma event_turn:
  assumes "steady s0 {} {} w"
  shows "(hub_step (ev_fd ev))\<^sup>*\<^sup>* (hub_of (w_app w)) (hub_of (w_app (handleClientEvent ev w)))"
    and "\<not> hasInterest (ev_interests ev) ReadInterest \<Longrightarrow> lost\<^sup>*\<^sup>* (hub_of (w_app w)) (hub_of (w_app (handleClientEvent ev w)))"
    and "srv_running s0 \<Longrightarrow> lost\<^sup>*\<^sup>* (hub_of (w_app w)) (hub_of (w_app (acceptReadyClients w)))"
  using assms speaking.handleClientEvent [where a = "ev_fd ev" and ?h0.0 = "hub_of (w_app w)" and ?s0.0 = s0 and w = w and ev = ev]
    losing.handleClientEvent [where ?h0.0 = "hub_of (w_app w)" and ?s0.0 = s0 and w = w and ev = ev]
    losing.acceptReadyClients [where ?h0.0 = "hub_of (w_app w)" and ?s0.0 = s0 and w = w]
  by auto

text \<open>The clients that have something to say: whose descriptors are reported as readable, in the order of the report.\<close>

definition speakers_of :: "fd \<Rightarrow> event list \<Rightarrow> fd list" where
  "speakers_of listenFd evs =
     map ev_fd (filter (\<lambda>ev. ev_fd ev \<noteq> listenFd \<and> hasInterest (ev_interests ev) ReadInterest) evs)"

lemma eventLoop_follows:
  assumes "steady s0 {} {} w" and "srv_running s0" and "follows as h0 (hub_of (w_app w))"
  shows "follows (as @ speakers_of (srv_listenFd s0) evs) h0 (hub_of (w_app (snd (eventLoop evs w))))"
  using assms
proof (induction evs arbitrary: as w)
  case Nil
  then show ?case by (simp add: speakers_of_def)
next
  case (Cons ev evs)
  have listen: "srv_listenFd (w_server w) = srv_listenFd s0" using Cons.prems(1) by (simp add: steady_def same_setup_def)
  note turn = event_turn(1,2) [OF Cons.prems(1), of ev] event_turn(3) [OF Cons.prems(1,2)]
  show ?case
  proof (cases "srv_stopRequested (w_server w)")
    case True
    with follows_skip [OF Cons.prems(3)] show ?thesis by simp
  next
    case running: False
    show ?thesis
    proof (cases "ev_fd ev = srv_listenFd s0")
      case True
      let ?w1 = "if hasInterest (ev_interests ev) ReadInterest then acceptReadyClients w else w"
      have "steady s0 {} {} ?w1" "follows as h0 (hub_of (w_app ?w1))"
        using Cons.prems steady_acceptReadyClients follows_lost [OF turn(3)] by auto
      from Cons.IH [OF this(1) Cons.prems(2) this(2)] follows_skip [OF Cons.prems(3)] running True listen
      show ?thesis by (simp add: speakers_of_def)
    next
      case False
      have ok1: "steady s0 {} {} (handleClientEvent ev w)" by (rule steady_handleClientEvent [OF Cons.prems(1)])
      have "follows (as @ (if hasInterest (ev_interests ev) ReadInterest then [ev_fd ev] else [])) h0
          (hub_of (w_app (handleClientEvent ev w)))"
        using follows.turn [OF Cons.prems(3) turn(1)] follows_lost [OF turn(2) Cons.prems(3)] by simp
      from Cons.IH [OF ok1 Cons.prems(2) this] running False listen show ?thesis
        by (cases "hasInterest (ev_interests ev) ReadInterest") (simp_all add: speakers_of_def)
    qed
  qed
qed

text \<open>The clients that the next wait of the program will report as readable.\<close>

definition next_speakers :: "world \<Rightarrow> fd list" where
  "next_speakers w =
     (case srv_eventManager (w_server w) of
        None \<Rightarrow> []
      | Some em \<Rightarrow>
          (case em_wait (strerror_of w) em (case os_wait (w_os w) of [] \<Rightarrow> Ready [] | a # _ \<Rightarrow> a) of
             Inl _ \<Rightarrow> []
           | Inr evs \<Rightarrow> speakers_of (srv_listenFd (w_server w)) evs))"

lemma pollOnce_follows:
  assumes ok: "service_ok {} {} w"
  shows "follows (next_speakers w) (hub_of (w_app w)) (hub_of (w_app (snd (pollOnce t w))))"
proof (cases "srv_running (w_server w)")
  case False
  then show ?thesis by (simp add: pollOnce_def follows_nobody)
next
  case True
  from ok True obtain em where em: "srv_eventManager (w_server w) = Some em" by (auto simp: service_ok_def server_ok_def)
  let ?call = "em_wait_call em (effectiveTimeout (srv_config (w_server w)) t)"
  obtain a w1 where n: "next_wait ?call w = (a, w1)" by fastforce
  then have a: "a = (case os_wait (w_os w) of [] \<Rightarrow> Ready [] | a # _ \<Rightarrow> a)" and w1: "w_app w1 = w_app w" "strerror_of w1 = strerror_of w"
    by (auto simp: next_wait_def)
  have s: "steady (w_server w) {} {} w1" using n ok by (auto simp: next_wait_def steady_def [of _ _ _ w] intro: steady_os)
  have "follows [] (hub_of (w_app w)) (hub_of (w_app w1))" using w1 by (simp add: follows.idle)
  note round = eventLoop_follows [OF s True this]
  show ?thesis
  proof (cases "em_wait (strerror_of w1) em a")
    case (Inl e)
    then show ?thesis using True em n w1 a by (simp add: pollOnce_def next_speakers_def follows.idle)
  next
    case (Inr evs)
    then show ?thesis using round [of evs] True em n w1 a by (simp add: pollOnce_def next_speakers_def)
  qed
qed

lemma background_lost:
  assumes "service_ok {} {} w"
  shows "lost\<^sup>*\<^sup>* (hub_of (w_app w)) (hub_of (w_app (onTick w)))"
    and "lost\<^sup>*\<^sup>* (hub_of (w_app w)) (hub_of (w_app (shutdown r w)))"
  using assms ticking.onTick [where ?h0.0 = "hub_of (w_app w)" and R = "{}" and E = "{}" and w = w]
    ticking.shutdown [where ?h0.0 = "hub_of (w_app w)" and R = "{}" and E = "{}" and w = w and r = r] by simp_all

text \<open>
  A step of the program that goes on: in a round the clients act whose input it reads; the farewell lets nobody act.
\<close>

lemma main_step_follows:
  assumes "main_step s s'" and "main_ok s" and "fst s' = Serving \<or> fst s' = Draining n"
  shows "follows (if fst s' = Serving \<or> fst s \<noteq> Serving then next_speakers (snd s) else [])
      (hub_of (w_app (snd s))) (hub_of (w_app (snd s')))"
  using assms
proof (induction rule: main_step.induct)
  case (kernel p w os)
  then show ?case by (auto intro: follows_nobody)
next
  case (serve w w1)
  then have ok: "service_ok {} {} w" by simp
  then have ok1: "service_ok {} {} w1" using service_pollOnce(1) [OF ok, of "- 1"] serve by simp
  have "follows (next_speakers w) (hub_of (w_app w)) (hub_of (w_app w1))" using pollOnce_follows [OF ok, of "- 1"] serve by simp
  from follows_lost [OF background_lost(1) [OF ok1] this] show ?case by simp
next
  case (interrupt w)
  then show ?case using follows_lost [OF background_lost(2) follows.idle] by simp
next
  case (drain w w1 k)
  then show ?case using pollOnce_follows [of w 50] by simp
qed auto

lemma hub_of_idle:
  assumes ok: "service_ok {} E w" and idle: "connectionCount w = 0"
  shows "hub_of (w_app w) = hub_init"
proof (rule hub_eqI)
  have "om_dom (conns w) = {}" using idle by (simp add: connectionCount_def om_size_card)
  then have none: "registry_find (clients w) fd = None" for fd
    using connected_iff [OF ok, of fd] by (auto simp: findConnection_def)
  then show "hb_people (hub_of (w_app w)) = hb_people hub_init" by (simp add: hub_init_def enrolled_def fun_eq_iff)
  have "om_get (channels w) n = None" for n
    using none service_channelD [OF ok, of n] by (cases "om_get (channels w) n") (auto simp: channel_ok_def)
  then show "hb_rooms (hub_of (w_app w)) n = hb_rooms hub_init n" for n by (simp add: hub_init_def)
qed

lemma started_empty: "main_setup argv os = Inr w0 \<Longrightarrow> start w0 = (None, w) \<Longrightarrow> hub_of (w_app (announce w)) = hub_init"
  using hub_of_idle [OF main_setup_ok(1,3)] by (simp add: announce_def)

text \<open>In particular the rules of the machine hold in every state the program reaches.\<close>

lemma reachable_hub_ok: "reachable s \<Longrightarrow> fst s = Serving \<or> fst s = Draining n \<Longrightarrow> hub_ok (hub_of (w_app (snd s)))"
proof (induction arbitrary: n rule: reachable.induct)
  case (started os argv w0 w)
  then show ?case using hub_init_ok started_empty [OF started(3,4)] by simp
next
  case (step s s')
  have ok: "main_ok s" using step.hyps(1) by (rule reachable_ok)
  have "\<exists>k. fst s = Serving \<or> fst s = Draining k" using step.hyps(2) step.prems by (auto elim!: main_step.cases)
  with follows_ok [OF main_step_follows [OF step.hyps(2) ok step.prems]] step.IH show ?case by blast
qed

text \<open>
  What the machine says about operators: only an operator makes somebody else one; a client that is not an operator
  can at most become one itself, by founding a room.
\<close>

lemma act_grants:
  assumes "act a A h h'" and "hb_rooms h' n = Some r'" and "x \<in> rm_operators r'" and "n \<notin> A"
  shows "x = a \<or> (\<exists>r. hb_rooms h n = Some r \<and> x \<in> rm_operators r)"
  using assms by (cases rule: act.cases)
    (auto simp: new_room_def without_def bind_eq_Some_conv split: if_splits)

lemma operator_grants:
  assumes "hub_step a h h'" and "hb_rooms h' n = Some r'" and "x \<in> rm_operators r'" and "x \<noteq> a" and "n \<notin> runs h a"
  shows "\<exists>r. hb_rooms h n = Some r \<and> x \<in> rm_operators r"
  using assms(1)
proof cases
  case command
  from command show ?thesis using assms(2,3)
  proof (induction arbitrary: r' rule: rtranclp_induct)
    case (step y z)
    from act_grants [OF step.hyps(2) step.prems assms(5)] assms(4) step.IH show ?case by blast
  qed auto
qed (use assms in auto)

end
