(* ===== verification/Spec2Isabelle.thy ===== *)
theory Spec2Isabelle
  imports Irc_Message Replies Channel Client_Registry Runtime_Config Connection Event_Manager World Relay
    Service Delivery Scenario Support Commands Registration Application Server_Loop Server_Invariant Descriptors Lifecycle
    Traffic Policy Timing Bookkeeping Waiting Authority Membership
begin

text \<open>
  A verification of the IRC relay server (\<^verbatim>\<open>src/\<close>): a single-threaded, event-driven C++ program that accepts
  TCP clients, registers them as IRC users and relays their messages.

  \<^bold>\<open>The program.\<close>  \<^verbatim>\<open>main.cpp\<close> reads the command line (\<^verbatim>\<open>RuntimeConfig\<close>), builds a \<^verbatim>\<open>Server\<close> and an
  \<^verbatim>\<open>IrcApplication\<close>, installs the callbacks of the application as handlers of the server, and calls
  \<open>pollOnce\<close> and \<open>onTick\<close> in turn until a signal arrives; then it sends every client a farewell, runs up to
  eight more rounds and ends.  The \<^verbatim>\<open>Server\<close> owns the listening socket, the \<^verbatim>\<open>EventManager\<close> (epoll or kqueue)
  and one \<^verbatim>\<open>Connection\<close> per client, with its line buffer and its bounded output queue.  The application owns
  the \<^verbatim>\<open>ClientRegistry\<close> and the table of \<^verbatim>\<open>Channel\<close> objects; it parses lines with \<^verbatim>\<open>IrcMessage\<close> and formats
  answers with \<^verbatim>\<open>Replies\<close>.  The two call each other: a send that overflows the queue of its receiver
  disconnects it, the disconnect calls the application back, which announces the QUIT to the peers, and
  these sends may overflow in turn.  This cascade is the hard part of the program and shapes the development.

  \<^bold>\<open>Theories and sources.\<close>
  \<^item> \<open>Prelude\<close>, \<open>Containers\<close>, \<open>Kernel\<close>: the parts of the standard library that are used (strings,
    ordered maps and sets) and the answers of the operating system.
  \<^item> \<open>Irc_Message\<close> (\<^verbatim>\<open>IrcMessage.cpp\<close>), \<open>Replies\<close> (\<^verbatim>\<open>Replies.cpp\<close>): parsing and printing.
  \<^item> \<open>Channel\<close> (\<^verbatim>\<open>Channel.cpp\<close>), \<open>Client_Registry\<close> (\<^verbatim>\<open>ClientRegistry.cpp\<close>): the data of the application.
  \<^item> \<open>Runtime_Config\<close> (\<^verbatim>\<open>RuntimeConfig.cpp\<close>): the command line, at the widths of the C++ types.
  \<^item> \<open>Connection\<close> (\<^verbatim>\<open>Connection.cpp\<close>, \<^verbatim>\<open>ConnectionLimits.hpp\<close>), \<open>Event_Manager\<close> (\<^verbatim>\<open>EpollEventManager.cpp\<close>,
    \<^verbatim>\<open>KqueueEventManager.cpp\<close>): the transport.
  \<^item> \<open>World\<close>: the state of the whole program as one record: \<open>w_server\<close> and \<open>w_app\<close> are the two objects,
    \<open>w_os\<close> the operating system, \<open>w_cerr\<close> the log, and \<open>w_fault\<close> records that a null pointer was
    dereferenced.  A member function becomes a function on worlds with the name it has in the source.
  \<^item> \<open>Relay\<close>: the cascade, \<open>sendTo\<close>, \<open>refreshInterest\<close>, \<open>disconnect\<close> (\<^verbatim>\<open>Server.cpp\<close>), \<open>onDisconnect\<close>
    (\<^verbatim>\<open>IrcApplication.cpp\<close>) and \<open>removeClientState\<close> (\<^verbatim>\<open>ApplicationSupport.cpp\<close>) as one mutually recursive function.
  \<^item> \<open>Support\<close> (\<^verbatim>\<open>ApplicationSupport.cpp\<close>), \<open>Commands\<close> (\<^verbatim>\<open>ChannelCommands.cpp\<close>, \<^verbatim>\<open>MessagingCommands.cpp\<close>),
    \<open>Registration\<close> (\<^verbatim>\<open>RegistrationCommands.cpp\<close>), \<open>Application\<close> (\<^verbatim>\<open>IrcApplication.cpp\<close>): the handlers.
  \<^item> \<open>Server_Loop\<close> (\<^verbatim>\<open>Server.cpp\<close>): start, accepting, client events, \<open>pollOnce\<close>, \<open>run\<close>, destruction.
  \<^item> \<open>Lifecycle\<close> (\<^verbatim>\<open>main.cpp\<close>): \<open>main_setup\<close> and the step relation \<open>main_step\<close> over the phases
    \<open>Serving\<close>, \<open>Draining n\<close>, \<open>Finished\<close> and \<open>Failed e\<close>; \<open>reachable\<close> is its closure from every
    successful start.
  \<^item> \<open>Service\<close>, \<open>Server_Invariant\<close>, \<open>Descriptors\<close>, \<open>Delivery\<close>, \<open>Traffic\<close>, \<open>Policy\<close>, \<open>Authority\<close>, \<open>Timing\<close>,
    \<open>Bookkeeping\<close>, \<open>Waiting\<close>, \<open>Membership\<close>: no program code of their own (but for the moves of a \<^verbatim>\<open>Connection\<close> in \<open>Descriptors\<close>); they
    hold the invariants and the properties that span components.  \<open>Membership\<close> also holds the abstract machine of rooms and
    people that the program is shown to refine.  \<open>Scenario\<close> is a concrete state on which the properties are evaluated.
\<close>

text \<open>
  \<^bold>\<open>Modelling decisions.\<close>  Exceptions are values: an operation that may throw returns the text of the
  exception or \<open>None\<close>.  A pointer that the source keeps across a call that may invalidate it is looked up
  again at its next use, and where the source dereferences it without a test a missing entry raises
  \<open>w_fault\<close>.  Counters, queue sizes and limits are 64 bit words, the port is a 16 bit word; time points are
  integers in nanoseconds.  The kernel is a set of finite scripts, one per kind of call; a run against any
  kernel consumes finitely many answers up to any point, so it is a run of the model for some script, and the step
  \<open>kernel\<close> of \<open>main_step\<close> replaces the scripts at will between two rounds; it keeps the record of the calls made
  so far and does not set the steady clock back.  The registration calls, the wait calls with their timeouts and the closed
  descriptors are on record, so that properties can speak of them.  The loops that read a script
  (\<open>recvLoop\<close>, \<open>sendLoop\<close>, \<open>acceptLoop\<close>) recurse on it, so they need no other bound.  The connection table
  is an unordered map in the source; where it is walked the order is an argument.

  \<^bold>\<open>Termination.\<close>  The cascade ends because every nested level has taken a connection out of the table before it
  sends; \<open>cascade_total\<close> shows this on the domain of the function, since the arguments alone do not decrease
  in an evident way.  \<open>Server::run\<close> may loop forever and is a partial function (\<open>run_loop\<close>); \<open>main\<close> uses
  \<open>pollOnce\<close>, which is total, and the drain phase is shown to end.

  \<^bold>\<open>Locales.\<close>  \<open>ordered_map\<close>, \<open>case_fold\<close>, \<open>nick_directory\<close> and \<open>readiness\<close> are the contracts of the containers,
  the case mappings, the nickname index and the event managers, interpreted on the definitions of their components.
  \<open>relay_invariant\<close> says what a predicate on worlds has to satisfy to be kept by the cascade; \<open>reply_invariant\<close>
  extends it to the replies and the commands that only read.  On top of it \<open>channel_invariant\<close> carries the channel
  commands of one client, with the channels over which the client has authority as a parameter, and
  \<open>identity_invariant\<close> registration, dispatch, rate limit and heartbeat of one client.  \<open>command_invariant\<close> is a
  \<open>channel_invariant\<close> for every client (a sublocale), \<open>session_invariant\<close> joins the two halves, \<open>loop_invariant\<close> asks
  only what the heartbeat of every client needs (\<open>heartbeat_invariant\<close>, given by \<open>identity_invariant\<close>) and adds the ticks and the farewell.  \<open>call_condition\<close>, \<open>still_condition\<close>,
  \<open>round_condition\<close> and \<open>poll_condition\<close> form a chain: each adds what a condition needs to be kept by the registration calls, by
  the cascade, by the steps of the event loop, in which the clients in \<open>speakers\<close> send lines, and by a whole \<open>pollOnce\<close>; \<open>side_condition\<close> gives all but the last for
  conditions that only look at the kernel, the clock and the windows.
  Each operation is walked through once, inside these locales, and the interpretations give the result for every
  invariant in use: \<open>service_ok\<close> (consistency), \<open>restricted\<close> (exact effect of the cascade), \<open>queues_grown\<close> (nothing
  queued is lost), \<open>steady\<close> (server set-up and limit), \<open>orderly\<close> (kernel registrations and timestamps),
  \<open>protected_room\<close> (a channel out of reach), the steps of the abstract machine, and the predicates behind isolation and authentication.
  \<open>app_predicate\<close>, \<open>counter_predicate\<close> and \<open>client_predicate\<close> produce such invariants from predicates on the
  application alone.

  \<^bold>\<open>The abstract machine.\<close>  \<open>Membership\<close> states in one page what the service promises about channels: a \<open>hub\<close> of rooms and
  people, and the steps of \<open>act\<close> (found, enter, leave, expel, retitle, greet, shut, lock, promote, demote) with who may take them.
  \<open>hub_of\<close> reads the hub off the application.  Every line of a client is a sequence of such steps of this client; losing a
  client is the step \<open>vanish\<close>, whatever else the cascade does.  The program refines the machine step by step: \<open>follows as\<close> says that
  the clients \<open>as\<close> act in this order, each with its own authority, and \<open>next_speakers\<close> reads off a state whose input the
  next round will read, so that a client which is silent in a round changes nothing there.

  \<^bold>\<open>What is shown.\<close>  About every reachable state: no fault, the tables agree, every connection will be woken up because
  the kernel has acknowledged what it needs, the connection limit holds, the program never sleeps without a limit, the rate limit windows are in
  order, and rooms and people change as the abstract machine allows the clients that speak (this theory, with \<open>Bookkeeping\<close>, \<open>Waiting\<close> and \<open>Membership\<close>).  About the cascade: its exact effect on the application, who is told,
  and that descriptors are closed exactly once (\<open>Traffic\<close>, \<open>Descriptors\<close>).  About messages: who gets a
  PRIVMSG, that what is queued is parsed back, and that a closing connection goes when its last byte is out (\<open>Traffic\<close>).  About the rules of the service: operator rights,
  invitations, JOIN, KICK, password, isolation of sessions (\<open>Policy\<close>), and what any line at all of a
  client can do to a channel it does not operate (\<open>Authority\<close>).  About time: the rate limit is a sliding
  window, the heartbeat works, dead clients go (\<open>Timing\<close>).  About errors and the end: no client stops the
  loop, a failed start leaves nothing behind, shutdown ends with everything closed once.  About the single components: round trips of the parser,
  refinement of the nickname index, overflow-free parsing and queue limits, framing independent of TCP
  segmentation, intact output stream, an event manager cache that matches the kernel.  The section on deviations
  in \<open>Timing\<close> shows three places where the code does not do what it appears to intend.

  \<^bold>\<open>Not modelled.\<close>  The messages \<^verbatim>\<open>main\<close> writes to standard output and, when an exception ends the
  program after its start, to standard error (the text of the exception is the argument of \<open>Failed\<close>); the signal handler itself (the step \<open>interrupt\<close> may
  happen at any time); allocation failure; the descriptor of the event manager itself, which is opened by its constructor and closed
  by its destructor; plain accessors; \<^verbatim>\<open>tests/\<close>
  and \<^verbatim>\<open>tools/\<close>, which drive the program from outside.

  \<^bold>\<open>Open extensions.\<close>  A bound on the output queues in every reachable state (the bound of a single \<open>queueLine\<close> is shown; it
  rests on lines shorter than \<^verbatim>\<open>SIZE_MAX\<close>, which would have to be followed through the handlers); the agreement of the kqueue filters with the kernel as part of the invariant of the running
  program (a call that throws half-way leaves them apart until the connection is dropped); that no line feed of a
  client's data reaches the output of another, which needs the lines as a parameter of \<open>relay_invariant\<close>.
\<close>

section \<open>A run of the program\<close>

text \<open>A start with default options on a kernel that grants every call.\<close>

definition boot_argv :: "string list" where
  "boot_argv = [''irc-relay-server'', ''7'', ''secret'', ''--max-connections=2'']"

definition boot_world :: world where
  "boot_world = (case main_setup boot_argv (w_os chat) of Inr w0 \<Rightarrow> snd (start w0) | Inl _ \<Rightarrow> chat)"

lemma boot_reachable: "reachable (Serving, announce boot_world)"
proof -
  have "case main_setup boot_argv (w_os chat) of Inr w0 \<Rightarrow> fst (start w0) = None | Inl _ \<Rightarrow> False" by code_simp
  then obtain w0 where m: "main_setup boot_argv (w_os chat) = Inr w0" "fst (start w0) = None"
    by (auto split: sum.splits)
  then have "start w0 = (None, boot_world)" by (metis boot_world_def prod.collapse sum.case(2))
  with m(1) show ?thesis by (intro started) (simp_all add: chat_def)
qed

text \<open>The same program after one round in which it accepted a client on descriptor 4.\<close>

definition visitor_os :: os_state where
  "visitor_os = (w_os (announce boot_world))\<lparr>os_wait := [Ready [EpollNative 3 EPOLLIN (SockError None)]], os_accept := [Accepted 4 OtherFamily]\<rparr>"

definition visited_world :: world where
  "visited_world = onTick (snd (pollOnce (-1) ((announce boot_world)\<lparr>w_os := visitor_os\<rparr>)))"

lemma reachable_round:
  assumes "reachable (Serving, w)" and "same_history (w_os w) os" and "fst (pollOnce (-1) (w\<lparr>w_os := os\<rparr>)) = None"
    and "srv_running (w_server (w\<lparr>w_os := os\<rparr>))"
  shows "reachable (Serving, onTick (snd (pollOnce (-1) (w\<lparr>w_os := os\<rparr>))))"
proof -
  have "reachable (Serving, w\<lparr>w_os := os\<rparr>)" by (rule step [OF assms(1)], rule kernel) (use assms(2) in simp_all)
  moreover have "pollOnce (-1) (w\<lparr>w_os := os\<rparr>) = (None, snd (pollOnce (-1) (w\<lparr>w_os := os\<rparr>)))" using assms(3) by (metis prod.collapse)
  ultimately show ?thesis using assms(4) by (blast intro: step serve)
qed

lemma visited_reachable: "reachable (Serving, visited_world)"
  unfolding visited_world_def
proof (rule reachable_round [OF boot_reachable])
  show "same_history (w_os (announce boot_world)) visitor_os" by (simp add: same_history_def visitor_os_def)
  show "fst (pollOnce (-1) ((announce boot_world)\<lparr>w_os := visitor_os\<rparr>)) = None"
    "srv_running (w_server ((announce boot_world)\<lparr>w_os := visitor_os\<rparr>))" by code_simp+
qed

text \<open>The visitor registers and founds a channel, with commands at different times.\<close>

definition busy_os :: os_state where
  "busy_os = (w_os visited_world)\<lparr>os_wait := [Ready [EpollNative 4 EPOLLIN (SockError None)]],
     os_recv := (\<lambda>_. [Received (''PASS secret'' @ crlf @ ''NICK al'' @ crlf @ ''USER al 0 * al'' @ crlf @ ''JOIN #x'' @ crlf)]), os_ticks := [1, 4, 9, 16]\<rparr>"

definition busy_world :: world where
  "busy_world = onTick (snd (pollOnce (-1) (visited_world\<lparr>w_os := busy_os\<rparr>)))"

lemma busy_reachable: "reachable (Serving, busy_world)"
  unfolding busy_world_def
proof (rule reachable_round [OF visited_reachable])
  show "same_history (w_os visited_world) busy_os" by (simp add: same_history_def busy_os_def)
  show "fst (pollOnce (-1) (visited_world\<lparr>w_os := busy_os\<rparr>)) = None" "srv_running (w_server (visited_world\<lparr>w_os := busy_os\<rparr>))"
    by code_simp+
qed

section \<open>Refinement of the abstract machine\<close>

text \<open>
  C5: The whole program refines the abstract machine.  It starts with the empty hub, and in every state it can reach each
  step that goes on is matched by the machine with exactly those clients acting, in this order and each with its own
  authority, whose input the round reads: a client that is silent in a round changes nothing in it.  The farewell
  after the signal lets nobody act, and whatever else the server does loses connections at most.
\<close>

theorem program_refines_hub:
  assumes "reachable s" and "main_step s s'" and "fst s' = Serving \<or> fst s' = Draining n"
  shows "follows (if fst s = Serving \<and> fst s' \<noteq> Serving then [] else next_speakers (snd s))
      (hub_of (w_app (snd s))) (hub_of (w_app (snd s'))) \<and>
    (\<forall>argv os w0 w. main_setup argv os = Inr w0 \<and> start w0 = (None, w) \<longrightarrow> hub_of (w_app (announce w)) = hub_init)"
proof -
  have "main_ok s" using assms(1) by (rule reachable_ok)
  from main_step_follows [OF assms(2) this assms(3)] started_empty show ?thesis by (cases "fst s = Serving") auto
qed

text \<open>In the round in which the visitor registers and founds its channel only the visitor speaks.\<close>

theorem program_refines_hub_witness:
  "follows [4] (hub_of (w_app visited_world)) (hub_of (w_app busy_world)) \<and>
   (\<exists>r. hb_rooms (hub_of (w_app busy_world)) ''#x'' = Some r \<and> 4 \<in> rm_operators r)"
proof
  let ?w = "visited_world\<lparr>w_os := busy_os\<rparr>"
  have r: "reachable (Serving, ?w)"
    by (rule step [OF visited_reachable], rule kernel) (simp_all add: same_history_def busy_os_def)
  have "fst (pollOnce (-1) ?w) = None" "srv_running (w_server ?w)" by code_simp+
  then have m: "main_step (Serving, ?w) (Serving, busy_world)"
    unfolding busy_world_def by (intro serve) (simp_all add: prod_eq_iff)
  have "next_speakers ?w = [4]" by code_simp
  with program_refines_hub [OF r m] show "follows [4] (hub_of (w_app visited_world)) (hub_of (w_app busy_world))" by simp
  have "case om_get (channels busy_world) ''#x'' of None \<Rightarrow> False | Some ch \<Rightarrow> isOperator ch 4" by code_simp
  then show "\<exists>r. hb_rooms (hub_of (w_app busy_world)) ''#x'' = Some r \<and> 4 \<in> rm_operators r" by (auto split: option.splits)
qed

section \<open>Safety of the running program\<close>

text \<open>
  C1: In no state the program can reach, from its start through serving and draining to its end, has the
  server dereferenced a null event manager or a channel that is gone, whatever the kernel answers and whatever the clients
  send.
\<close>

theorem program_never_faults:
  assumes "reachable (phase, w)"
  shows "\<not> w_fault w"
  using reachable_ok [OF assms] by (cases phase) (auto simp: released_def dest: service_no_fault)

theorem program_never_faults_witness: "\<not> w_fault busy_world \<and> om_has (channels busy_world) ''#x''"
proof
  show "\<not> w_fault busy_world" by (rule program_never_faults [OF busy_reachable])
  show "om_has (channels busy_world) ''#x''" by code_simp
qed

text \<open>The phases in which clients are served.\<close>

lemma reachable_service: "reachable (phase, w) \<Longrightarrow> phase = Serving \<or> phase = Draining n \<Longrightarrow> service_ok {} {} w \<and> within_limit w"
  using reachable_ok by fastforce

text \<open>
  C2: Between two events connections, clients and channels agree: every connection has a client state and
  the other way round; no channel is empty; every member of a channel is a connected client that has
  given the password, a nickname and a user name; no two clients carry the same nickname up to letter
  case; and the connections accepted are those closed and those open, in 64 bit arithmetic.
\<close>

theorem reachable_consistent:
  assumes "reachable (phase, w)" and "phase = Serving \<or> phase = Draining n"
  shows "(\<forall>fd. findConnection w fd \<noteq> None \<longleftrightarrow> registry_find (clients w) fd \<noteq> None) \<and>
    (\<forall>name ch. om_get (channels w) name = Some ch \<longrightarrow> (\<exists>m. hasMember ch m) \<and>
      (\<forall>m. hasMember ch m \<longrightarrow> (\<exists>st. registry_find (clients w) m = Some st \<and>
        cs_registered st \<and> cs_passOk st \<and> cs_hasNick st \<and> cs_hasUser st))) \<and>
    (\<forall>i j st st'. registry_find (clients w) i = Some st \<and> registry_find (clients w) j = Some st' \<and>
      cs_nick st \<noteq> [] \<and> cs_nick st' \<noteq> [] \<and> canonicalNick (cs_nick st) = canonicalNick (cs_nick st') \<longrightarrow> i = j) \<and>
    acceptedConnections (srv_metrics (w_server w)) =
      closedConnections (srv_metrics (w_server w)) + of_nat (connectionCount w)"
proof (intro conjI)
  have ok: "service_ok {} {} w" using reachable_service [OF assms] by simp
  then show "\<forall>fd. findConnection w fd \<noteq> None \<longleftrightarrow> registry_find (clients w) fd \<noteq> None"     using connected_iff [OF ok] by blast
  show "\<forall>name ch. om_get (channels w) name = Some ch \<longrightarrow> (\<exists>m. hasMember ch m) \<and>
      (\<forall>m. hasMember ch m \<longrightarrow> (\<exists>st. registry_find (clients w) m = Some st \<and>
        cs_registered st \<and> cs_passOk st \<and> cs_hasNick st \<and> cs_hasUser st))"
    using service_channelD [OF ok] service_client_ok [OF ok] unfolding channel_ok_def client_ok_def by blast
  show "\<forall>i j st st'. registry_find (clients w) i = Some st \<and> registry_find (clients w) j = Some st' \<and>
      cs_nick st \<noteq> [] \<and> cs_nick st' \<noteq> [] \<and> canonicalNick (cs_nick st) = canonicalNick (cs_nick st') \<longrightarrow> i = j"
    using ok unfolding service_ok_def by (blast intro: registry_nick_unique dest: app_okD(1))
  show "acceptedConnections (srv_metrics (w_server w)) =
      closedConnections (srv_metrics (w_server w)) + of_nat (connectionCount w)"
    using ok by (simp add: service_ok_def server_ok_def)
qed

theorem reachable_consistent_witness:
  "acceptedConnections (srv_metrics (w_server (announce boot_world))) =
     closedConnections (srv_metrics (w_server (announce boot_world))) + of_nat (connectionCount (announce boot_world))"
  using reachable_consistent [OF boot_reachable, of 0] by blast

text \<open>
  C14: No connection is forgotten: between two events every connection has a registration with the event
  manager that covers pending output and, unless the connection is closing, input; on the epoll backend the
  kernel has acknowledged exactly this registration; a closing connection has output left, otherwise it would have
  been closed.
\<close>

theorem reachable_attended:
  assumes "reachable (phase, w)" and "phase = Serving \<or> phase = Draining n" and "findConnection w fd = Some c"
  shows "(cn_closeRequested c \<longrightarrow> wantsWrite c) \<and>
    (\<exists>em i. srv_eventManager (w_server w) = Some em \<and> om_get (em_interests em) fd = Some i \<and>
       (wantsWrite c \<longrightarrow> hasInterest i WriteInterest) \<and> (\<not> cn_closeRequested c \<longrightarrow> hasInterest i ReadInterest) \<and>
       (\<forall>im. em = EpollEventManager im \<longrightarrow>
          epoll_kernel Map.empty (ck_log (os_ctl (w_os w))) fd = Some (nativeEventsFor i)))"
proof -
  have "server_ok {} w" using reachable_service [OF assms(1,2)] by (simp add: service_ok_def)
  moreover have "wired w" using reachable_orderly [OF assms(1)] assms(2) by (auto simp: orderly_def)
  ultimately show ?thesis
    using server_okD(5) [OF _ assms(3)]
    by (fastforce simp: attended_def interest_of_def wired_def epoll_consistent_def split: option.splits)
qed

theorem reachable_attended_witness:
  "\<exists>i. interest_of visited_world 4 = Some i \<and>
     epoll_kernel Map.empty (ck_log (os_ctl (w_os visited_world))) 4 = Some (nativeEventsFor i)"
proof -
  have "om_has (conns visited_world) 4" by code_simp
  then obtain c where c: "findConnection visited_world 4 = Some c" by (auto simp: findConnection_def)
  have "case srv_eventManager (w_server visited_world) of Some (EpollEventManager _) \<Rightarrow> True | _ \<Rightarrow> False" by code_simp
  then obtain im where "srv_eventManager (w_server visited_world) = Some (EpollEventManager im)"
    by (auto split: option.splits event_manager.splits)
  with reachable_attended [OF visited_reachable _ c, of 0] show ?thesis by (auto simp: interest_of_def)
qed

text \<open>
  C20: The clocks of the rate limit are in order: in every state the program can reach the command window of every
  client is sorted by time and holds no time in the future, so that dropping the old entries from its front
  leaves exactly the recent ones.
\<close>

theorem reachable_windows:
  assumes "reachable (phase, w)" and "phase = Serving \<or> phase = Draining n" and "registry_find (clients w) fd = Some st"
  shows "sorted (cs_commandWindow st) \<and> (\<forall>t \<in> set (cs_commandWindow st). t \<le> os_now (w_os w)) \<and>
    dropWhile (\<lambda>t. os_now (w_os w) - t \<ge> d) (cs_commandWindow st) =
      filter (\<lambda>t. os_now (w_os w) - t < d) (cs_commandWindow st)"
proof -
  have "timed w" using reachable_orderly [OF assms(1)] assms(2) by (auto simp: orderly_def)
  then have "chronological (os_now (w_os w)) (cs_commandWindow st)" using assms(3) by (simp add: timed_def)
  then show ?thesis using dropWhile_sorted by (simp add: chronological_def)
qed

theorem reachable_windows_witness:
  "\<exists>st. registry_find (clients busy_world) 4 = Some st \<and> length (cs_commandWindow st) = 4 \<and> sorted (cs_commandWindow st)"
proof -
  have "case registry_find (clients busy_world) 4 of None \<Rightarrow> False | Some st \<Rightarrow> length (cs_commandWindow st) = 4" by code_simp
  then obtain st where st: "registry_find (clients busy_world) 4 = Some st" "length (cs_commandWindow st) = 4"
    by (auto split: option.splits)
  with reachable_windows [OF busy_reachable _ st(1), of 0] show ?thesis by blast
qed

text \<open>
  C15: The configured limit holds at all times: with a limit other than 0 there are never more connections
  than that, however many clients the kernel offers.
\<close>

theorem reachable_connection_limit:
  assumes "reachable (phase, w)" and "phase = Serving \<or> phase = Draining n"
    and "cfg_maxConnections (srv_config (w_server w)) \<noteq> 0"
  shows "connectionCount w \<le> unat (cfg_maxConnections (srv_config (w_server w)))"
  using reachable_service [OF assms(1,2)] assms(3) by (simp add: within_limit_def)

theorem reachable_connection_limit_witness: "connectionCount visited_world = 1 \<and> connectionCount visited_world \<le> 2"
proof -
  have "unat (cfg_maxConnections (srv_config (w_server visited_world))) = 2" "connectionCount visited_world = 1"
    by code_simp+
  moreover from this(1) have "cfg_maxConnections (srv_config (w_server visited_world)) \<noteq> 0" by auto
  ultimately show ?thesis using reachable_connection_limit [OF visited_reachable, of 0] by simp
qed

text \<open>
  C16: The program never sleeps without a limit, whatever kernel it runs on: while it serves, each of its wait calls lasts
  a second at most, and after the signal there are at most eight more, of 50 ms each.
\<close>

theorem reachable_waits:
  assumes "reachable (phase, w)"
  shows "\<exists>serving draining. os_waits (w_os w) = serving @ draining \<and>
    (\<forall>c \<in> set serving. wait_limit c = Some 1000000000) \<and> (\<forall>c \<in> set draining. wait_limit c = Some 50000000) \<and>
    length draining \<le> 8 \<and> (phase = Serving \<longrightarrow> draining = []) \<and> (\<forall>n. phase = Draining n \<longrightarrow> length draining = 8 - n)"
proof -
  from reachable_waits_phase [OF assms] obtain k where k: "k \<le> 8" "waits_of (os_waits (w_os w)) k"
      "phase = Serving \<longrightarrow> k = 0" "\<forall>n. phase = Draining n \<longrightarrow> k = 8 - n"
    by (cases phase) auto
  from k(2) obtain serving draining where "os_waits (w_os w) = serving @ draining" "length draining = k"
      "\<forall>c \<in> set serving. wait_limit c = Some 1000000000" "\<forall>c \<in> set draining. wait_limit c = Some 50000000"
    by (auto simp: waits_of_def second_def)
  with k show ?thesis by (intro exI [of _ serving] exI [of _ draining]) auto
qed

theorem reachable_waits_witness:
  "os_waits (w_os busy_world) = [EpollWait 1000, EpollWait 1000] \<and>
   (\<exists>serving draining. os_waits (w_os busy_world) = serving @ draining \<and>
      (\<forall>c \<in> set serving. wait_limit c = Some 1000000000) \<and> draining = [])"
proof
  show "os_waits (w_os busy_world) = [EpollWait 1000, EpollWait 1000]" by code_simp
  show "\<exists>serving draining. os_waits (w_os busy_world) = serving @ draining \<and>
      (\<forall>c \<in> set serving. wait_limit c = Some 1000000000) \<and> draining = []"
    using reachable_waits [OF busy_reachable] by blast
qed

section \<open>Errors\<close>

lemma eventLoop_survives:
  assumes "steady s0 {} {} w" and "srv_running s0" and "\<forall>ev \<in> set evs. ev_fd ev = srv_listenFd s0 \<longrightarrow> \<not> ev_error ev"
  shows "fst (eventLoop evs w) = None"
  using assms
proof (induction evs arbitrary: w)
  case (Cons ev evs)
  have "srv_listenFd (w_server w) = srv_listenFd s0" using Cons.prems(1) by (simp add: steady_def same_setup_def)
  with Cons show ?case by (simp add: steady_acceptReadyClients steady_handleClientEvent)
qed simp

text \<open>
  C13: No client can stop the loop: unless the wait itself fails or the listening socket reports an error,
  \<open>pollOnce\<close> does not throw, and the service invariant holds afterwards.
\<close>

theorem clients_cannot_stop_loop:
  assumes "service_ok {} {} w" and "srv_running (w_server w)" and "srv_eventManager (w_server w) = Some em"
    and "next_wait (em_wait_call em (effectiveTimeout (srv_config (w_server w)) timeoutMs)) w = (answer, w1)"
    and "em_wait (strerror_of w1) em answer = Inr evs"
    and "\<forall>ev \<in> set evs. ev_fd ev = srv_listenFd (w_server w) \<longrightarrow> \<not> ev_error ev"
  shows "fst (pollOnce timeoutMs w) = None \<and> service_ok {} {} (snd (pollOnce timeoutMs w))"
proof -
  have "steady (w_server w) {} {} w" using assms(1) by (simp add: steady_def)
  then have "steady (w_server w) {} {} w1" using assms(4) by (auto simp: next_wait_def steady_os)
  then have "fst (eventLoop evs w1) = None" using assms(2,6) by (rule eventLoop_survives)
  then show ?thesis using assms service_pollOnce(1) [OF assms(1), of timeoutMs] by (simp add: pollOnce_def)
qed

theorem clients_cannot_stop_loop_witness:
  "fst (pollOnce (-1) (chat\<lparr>w_os := (w_os chat)\<lparr>os_wait := [Ready [EpollNative 4 EPOLLERR (SockError None)]]\<rparr>\<rparr>)) = None"
proof -
  let ?w = "chat\<lparr>w_os := (w_os chat)\<lparr>os_wait := [Ready [EpollNative 4 EPOLLERR (SockError None)]]\<rparr>\<rparr>"
  have ok: "service_ok {} {} ?w" using svc.outside [OF chat_ok, of ?w] by (simp add: undisturbed_def)
  obtain em where em: "srv_eventManager (w_server ?w) = Some em" by (simp add: chat_def)
  obtain w1 where n: "next_wait (em_wait_call em (effectiveTimeout (srv_config (w_server ?w)) (-1))) ?w =
      (Ready [EpollNative 4 EPOLLERR (SockError None)], w1)" by (simp add: next_wait_def)
  have e: "em_wait (strerror_of w1) em (Ready [EpollNative 4 EPOLLERR (SockError None)]) =
      Inr [event_of_native (EpollNative 4 EPOLLERR (SockError None))]" using em by (auto simp: chat_def epoll_wait_def)
  have "ev_fd (event_of_native (EpollNative 4 EPOLLERR (SockError None))) = 4" "srv_listenFd (w_server chat) = 3" by code_simp+
  with clients_cannot_stop_loop [OF ok _ em n e] show ?thesis by (simp add: chat_def)
qed

text \<open>
  C28: A start that fails leaves nothing behind: the server is not running and has no listening socket, the
  connections and the application are untouched, and the only descriptor closed is the socket the
  attempt had opened, if it came that far.
\<close>

theorem start_failure_clean:
  assumes "start w = (Some e, w')" and "\<not> srv_running (w_server w)" and "srv_listenFd (w_server w) = -1"
  shows "\<not> srv_running (w_server w') \<and> srv_listenFd (w_server w') = -1 \<and> conns w' = conns w \<and> w_app w' = w_app w \<and>
    (os_closed (w_os w') = os_closed (w_os w) \<and> (fst (createDefault w) = Inl e \<or> (\<exists>e'. os_socket (w_os w) = Inl e')) \<or>
     (\<exists>n. os_socket (w_os w) = Inr n \<and> os_closed (w_os w') = os_closed (w_os w) @ [int n]))"
proof -
  have split: "os_closed (w_os v') = os_closed (w_os w) \<and> (\<exists>e'. os_socket (w_os w) = Inl e') \<or>
      (\<exists>n. os_socket (w_os w) = Inr n \<and> os_closed (w_os v') = os_closed (w_os w) @ [int n])"
    if "os_closed (w_os v') = os_closed (w_os w) @ socket_opened w" for v'
    using that by (auto simp: socket_opened_def split: sum.splits)
  show ?thesis
  proof (cases "srv_eventManager (w_server w)")
    case (Some em)
    with assms have "listen_with em w = (Some e, w')" by (simp add: start_def)
    note l = listen_with_fails [OF this assms(2,3)]
    show ?thesis using l(2-) split [OF l(1)] by blast
  next
    case None
    obtain r w1 where c: "createDefault w = (r, w1)" by fastforce
    have f: "w_server w1 = w_server w" "w_app w1 = w_app w" "os_closed (w_os w1) = os_closed (w_os w)" "os_socket (w_os w1) = os_socket (w_os w)"
      using c by (auto simp: createDefault_defs split: platform.splits prod.splits option.splits)
    show ?thesis
    proof (cases r)
      case (Inl e')
      with assms None c have "w' = w1" "e' = e" by (auto simp: start_def)
      with Inl c f assms(2,3) show ?thesis by simp
    next
      case (Inr em)
      with assms None c have "listen_with em w1 = (Some e, w')" by (simp add: start_def)
      note l = listen_with_fails [OF this assms(2,3) [folded f(1)]]
      have "os_closed (w_os w') = os_closed (w_os w) @ socket_opened w" using l(1) by (simp add: socket_opened_def f)
      from split [OF this] show ?thesis using l(2-) unfolding f by blast
    qed
  qed
qed

text \<open>The kernel refuses to bind: the seventh configuration call of the start, \<open>bind\<close>, fails.\<close>

definition refused_world :: world where
  "refused_world = (case main_setup boot_argv ((w_os chat)\<lparr>os_calls := [None, None, None, None, None, None, Some (Errno 98)]\<rparr>) of
     Inr w0 \<Rightarrow> w0 | Inl _ \<Rightarrow> chat)"

theorem start_failure_clean_witness:
  "fst (start refused_world) \<noteq> None \<and> srv_listenFd (w_server (snd (start refused_world))) = -1 \<and>
   os_closed (w_os (snd (start refused_world))) = [3]"
proof -
  have "case fst (start refused_world) of None \<Rightarrow> False | Some _ \<Rightarrow> True" by code_simp
  then obtain e where e: "fst (start refused_world) = Some e" by (auto split: option.splits)
  then have s: "start refused_world = (Some e, snd (start refused_world))" by (metis prod.collapse)
  have "\<not> srv_running (w_server refused_world)" "srv_listenFd (w_server refused_world) = -1" by code_simp+
  from start_failure_clean [OF s this] have "srv_listenFd (w_server (snd (start refused_world))) = -1" by blast
  moreover have "os_closed (w_os (snd (start refused_world))) = [3]" by code_simp
  ultimately show ?thesis using e by simp
qed

section \<open>The end of the program\<close>

lemma drained_end:
  "\<exists>k \<le> Suc n. \<exists>s. (main_step ^^ k) (Draining n, w) s \<and> (fst s = Finished \<or> (\<exists>e. fst s = Failed e))"
proof (induction n arbitrary: w)
  case 0
  have "main_step (Draining 0, w) (Finished, Server_destroy (om_keys (conns w)) (stop (clearHandlers w)))"
    by (rule finish) (simp_all add: om_dom_keys)
  then show ?case by (intro exI [of _ 1]) auto
next
  case (Suc n)
  obtain r w1 where p: "pollOnce 50 w = (r, w1)" by fastforce
  consider (idle) "connectionCount w = 0" | (thrown) e where "connectionCount w > 0" "r = Some e"
    | (round) "connectionCount w > 0" "r = None" by (cases r) auto
  then show ?case
  proof cases
    case idle
    then have "main_step (Draining (Suc n), w) (Finished, Server_destroy (om_keys (conns w)) (stop (clearHandlers w)))"
      by (intro finish) (simp_all add: om_dom_keys)
    then show ?thesis by (intro exI [of _ 1]) auto
  next
    case thrown
    then have "main_step (Draining (Suc n), w) (Failed e, Server_destroy (om_keys (conns w1)) w1)"
      using p by (intro drain_throws) (simp_all add: om_dom_keys)
    then show ?thesis by (intro exI [of _ 1]) auto
  next
    case round
    then have "main_step (Draining (Suc n), w) (Draining n, w1)" using p by (intro drain) simp_all
    moreover from Suc.IH [of w1] obtain k s where "k \<le> Suc n" "(main_step ^^ k) (Draining n, w1) s"
      "fst s = Finished \<or> (\<exists>e. fst s = Failed e)" by blast
    ultimately show ?thesis by (intro exI [of _ "Suc k"]) (metis Suc_le_mono relpowp_Suc_I2)
  qed
qed

lemma reachable_steps: "(main_step ^^ k) s s' \<Longrightarrow> reachable s \<Longrightarrow> reachable s'"
  by (induction k arbitrary: s') (auto intro: step)

text \<open>
  C27: Shutdown comes to a clean end.  From every reachable draining state with \<open>n\<close> rounds left the program can get to its
  end in \<open>n + 1\<close> steps, and any step it takes, apart from changes of the kernel's side, is one round less with a single wait
  of 50 ms, or the end: the regular one, without callbacks into the application, when the rounds are used up or nobody is
  connected, or that by an exception.  At the end nothing is connected, the server does not listen or run, and every
  descriptor that was open has been closed exactly once.
\<close>

theorem shutdown_completes:
  assumes "reachable (Draining n, w)"
  shows "(\<exists>k \<le> Suc n. \<exists>s. (main_step ^^ k) (Draining n, w) s \<and> released (snd s) \<and> (fst s = Finished \<or> (\<exists>e. fst s = Failed e))) \<and>
   (\<forall>p' w'. main_step (Draining n, w) (p', w') \<longrightarrow>
      (p' = Draining n \<and> (\<exists>os. same_history (w_os w) os \<and> w' = w\<lparr>w_os := os\<rparr>)) \<or>
      (p' = Draining (n - 1) \<and> 0 < n \<and> 0 < connectionCount w \<and> w' = snd (pollOnce 50 w) \<and>
        (\<exists>call. os_waits (w_os w') = os_waits (w_os w) @ [call] \<and> wait_limit call = Some 50000000)) \<or>
      (p' = Finished \<and> (n = 0 \<or> connectionCount w = 0) \<and> dismantled w w' \<and> w_app w' = w_app w) \<or>
      (\<exists>e. p' = Failed e \<and> fst (pollOnce 50 w) = Some e \<and> dismantled (snd (pollOnce 50 w)) w'))"
proof -
  have ok: "service_ok {} {} w" using reachable_ok [OF assms] by simp
  have ok1: "service_ok {} {} (snd (pollOnce 50 w))" by (rule service_pollOnce(1) [OF ok])
  from drained_end [of n w] obtain k s where fin: "k \<le> Suc n" "(main_step ^^ k) (Draining n, w) s"
    "fst s = Finished \<or> (\<exists>e. fst s = Failed e)" by blast
  from reachable_ok [OF reachable_steps [OF fin(2) assms]] fin(3) have "released (snd s)" by (cases s) auto
  with fin have reached: "\<exists>k \<le> Suc n. \<exists>s. (main_step ^^ k) (Draining n, w) s \<and> released (snd s) \<and> (fst s = Finished \<or> (\<exists>e. fst s = Failed e))"
    by blast
  have waits: "\<exists>call. os_waits (w_os w1) = os_waits (w_os w) @ [call] \<and> wait_limit call = Some 50000000"
    if "pollOnce 50 w = (None, w1)" for w1
  proof -
    have "srv_running (w_server w)" using that by (auto simp: pollOnce_def split: if_splits)
    from pollOnce_waits(2) [OF ok this, of 50] that show ?thesis by (simp add: effectiveTimeout_def)
  qed
  have broken: "dismantled (snd (pollOnce 50 w)) (Server_destroy fds (snd (pollOnce 50 w)))"
    if "set fds = om_dom (conns (snd (pollOnce 50 w)))" for fds
    using destroy_dismantles [OF service_keyed [OF ok1] that service_no_fault [OF ok1]] ok1 by blast
  show ?thesis
  proof (intro conjI reached allI impI)
    fix p' w' assume "main_step (Draining n, w) (p', w')"
    then show "(p' = Draining n \<and> (\<exists>os. same_history (w_os w) os \<and> w' = w\<lparr>w_os := os\<rparr>)) \<or>
      (p' = Draining (n - 1) \<and> 0 < n \<and> 0 < connectionCount w \<and> w' = snd (pollOnce 50 w) \<and>
        (\<exists>call. os_waits (w_os w') = os_waits (w_os w) @ [call] \<and> wait_limit call = Some 50000000)) \<or>
      (p' = Finished \<and> (n = 0 \<or> connectionCount w = 0) \<and> dismantled w w' \<and> w_app w' = w_app w) \<or>
      (\<exists>e. p' = Failed e \<and> fst (pollOnce 50 w) = Some e \<and> dismantled (snd (pollOnce 50 w)) w')"
      by (cases rule: main_step_Draining) (use waits broken finish_dismantles [OF ok] in auto)
  qed
qed

theorem shutdown_completes_witness:
  "\<exists>k s. k \<le> 9 \<and> (main_step ^^ k) (Draining 8, shutdown ''Server shutting down'' busy_world) s \<and> released (snd s) \<and>
     (fst s = Finished \<or> (\<exists>e. fst s = Failed e))"
proof -
  have "reachable (Draining 8, shutdown ''Server shutting down'' busy_world)" by (rule step [OF busy_reachable interrupt])
  from shutdown_completes [OF this] obtain k s where "k \<le> Suc 8" "(main_step ^^ k) (Draining 8, shutdown ''Server shutting down'' busy_world) s"
    "released (snd s)" "fst s = Finished \<or> (\<exists>e. fst s = Failed e)" by blast
  then show ?thesis by (intro exI [of _ k] exI [of _ s]) simp
qed

text \<open>
  C26: Destroying the server closes the descriptor of every connection and of the listening socket exactly
  once and no other descriptor, in whatever order the table is walked, and leaves nothing open.
\<close>

theorem destruction_closes_once:
  assumes "service_ok {} {} w" and "set fds = om_dom (conns w)" and "w' = Server_destroy fds w"
  shows "count_list (os_closed (w_os w')) g = count_list (os_closed (w_os w)) g +
      (if findConnection w g \<noteq> None then 1 else 0) + (if g = srv_listenFd (w_server w) \<and> g \<noteq> -1 then 1 else 0) \<and>
    (\<forall>fd. findConnection w' fd = None) \<and> srv_listenFd (w_server w') = -1"
  using Server_destroy_closes [OF assms(1,2), of g] Server_destroy_effect [OF assms(2)] assms(3)
  by (auto simp: findConnection_def)

theorem destruction_closes_once_witness:
  "os_closed (w_os (Server_destroy [5, 4] chat)) = [5, 4, 3] \<and> count_list (os_closed (w_os (Server_destroy [5, 4] chat))) 4 = 1"
proof -
  have "om_keys (conns chat) = [4, 5]" by code_simp
  then have fds: "set [5, 4] = om_dom (conns chat)" by (metis om_dom_keys insert_commute list.set)
  have "os_closed (w_os chat) = []" "findConnection chat 4 \<noteq> None" "srv_listenFd (w_server chat) = 3"
    by (simp_all add: chat_def findConnection_def)
  then have "count_list (os_closed (w_os (Server_destroy [5, 4] chat))) 4 = 1"
    using destruction_closes_once [OF chat_ok fds refl, of 4] by simp
  moreover have "os_closed (w_os (Server_destroy [5, 4] chat)) = [5, 4, 3]" by code_simp
  ultimately show ?thesis by blast
qed

end
